theory Spec2Isabelle
  imports Complex_Main "HOL-Library.Product_Lexorder"
begin

section \<open>Data model\<close>

text \<open>
  JavaScript numbers are modelled as \<open>int\<close> (minutes, day indices, revisions) and
  as \<open>real\<close> (coordinates); strings are \<open>string\<close> with ASCII contents. An
  optional field (\<open>x?: T\<close>, \<open>T | undefined\<close>, \<open>T | null\<close>) is an \<open>option\<close>.
  The module \<open>types\<close> (the \<open>TimeBlock\<close> and \<open>LocationData\<close> interfaces,
  \<open>PALETTE_COLORS\<close>, \<open>generateId\<close>) is not among the sources; the record fields
  below are those the sources read and write, and the palette and the id generator are
  parameters of the functions that use them.
\<close>

record LocationData =
  loc_name :: string
  lat :: real
  lng :: real

record TimeBlock =
  id' :: string
  dayIndex :: int
  startMinutes :: int
  endMinutes :: int
  color :: "string option"
  title :: string
  description :: string
  location :: "LocationData option"
  destination :: "LocationData option"
  routeMode :: "string option"
  preciseRouteCache :: "string option"

datatype ViewMode = Row | Grid | Day

text \<open>
  \<open>Record<number, T>\<close>: a JavaScript object whose keys are day indices. Such an object
  holds each key once and enumerates non-negative integer keys in ascending order
  (\<open>Object.entries\<close>, \<open>Object.values\<close>, \<open>Object.keys\<close>, \<open>JSON.stringify\<close>), so it
  is an association list kept in ascending key order; \<open>obj_wf\<close> is that representation
  invariant.
\<close>

type_synonym 'v Record = "(int \<times> 'v) list"

definition obj_wf :: "'v Record \<Rightarrow> bool" where
  "obj_wf obj = sorted_wrt (<) (map fst obj)"

definition obj_get :: "'v Record \<Rightarrow> int \<Rightarrow> 'v option" where
  "obj_get obj k = map_of obj k"

fun obj_set :: "int \<Rightarrow> 'v \<Rightarrow> 'v Record \<Rightarrow> 'v Record" where
  "obj_set k v [] = [(k, v)]"
| "obj_set k v ((a, b) # ps) =
     (if k < a then (k, v) # (a, b) # ps
      else if k = a then (k, v) # ps
      else (a, b) # obj_set k v ps)"

definition Object_values :: "'v Record \<Rightarrow> 'v list" where
  "Object_values obj = map snd obj"

definition Object_entries :: "'v Record \<Rightarrow> (int \<times> 'v) list" where
  "Object_entries obj = obj"

definition Object_keys :: "'v Record \<Rightarrow> int list" where
  "Object_keys obj = map fst obj"

text \<open>
  \<open>Map<K, V>\<close>: iteration follows insertion order, \<open>set\<close> on a key already present
  replaces the value in place, \<open>delete\<close> removes the entry.
\<close>

type_synonym ('k, 'v) Map = "('k \<times> 'v) list"

fun Map_set :: "'k \<Rightarrow> 'v \<Rightarrow> ('k, 'v) Map \<Rightarrow> ('k, 'v) Map" where
  "Map_set k v [] = [(k, v)]"
| "Map_set k v ((a, b) # ps) =
     (if k = a then (a, v) # ps else (a, b) # Map_set k v ps)"

definition Map_get :: "('k, 'v) Map \<Rightarrow> 'k \<Rightarrow> 'v option" where
  "Map_get m k = map_of m k"

definition Map_has :: "('k, 'v) Map \<Rightarrow> 'k \<Rightarrow> bool" where
  "Map_has m k = (map_of m k \<noteq> None)"

definition Map_delete :: "'k \<Rightarrow> ('k, 'v) Map \<Rightarrow> ('k, 'v) Map" where
  "Map_delete k m = filter (\<lambda>p. fst p \<noteq> k) m"

definition Map_keys :: "('k, 'v) Map \<Rightarrow> 'k list" where
  "Map_keys m = map fst m"

definition Map_values :: "('k, 'v) Map \<Rightarrow> 'v list" where
  "Map_values m = map snd m"

section \<open>The calendar server: store, merge engine, save handler\<close>

text \<open>The server's calendar document; \<open>startDate\<close> is an ISO string there.\<close>

record CalendarState =
  numDays :: int
  startDate :: string
  startHour :: int
  endHour :: int
  viewMode :: ViewMode
  events :: "TimeBlock list Record"

text \<open>
  \<open>deepEqual\<close> compares \<open>JSON.stringify\<close> of both sides. On values of one record type,
  whose fields are written in one order, that is equality; \<open>undefined\<close> (a missing map
  entry) equals nothing but \<open>undefined\<close>.
\<close>

definition deepEqual :: "'a \<Rightarrow> 'a \<Rightarrow> bool" where
  "deepEqual a b = (a = b)"

text \<open>\<open>DEFAULT_STATE.numDays\<close>\<close>

definition DEFAULT_numDays :: int where
  "DEFAULT_numDays = 5"

text \<open>
  \<open>normalizeState\<close> on a well-typed document: every field but a non-positive
  \<open>numDays\<close> passes through.
\<close>

definition normalizeState :: "CalendarState \<Rightarrow> CalendarState" where
  "normalizeState raw =
     raw\<lparr>numDays := (if numDays raw > 0 then numDays raw else DEFAULT_numDays)\<rparr>"

text \<open>\<open>flattenEvents\<close>: the two nested loops; an event without an id is skipped.\<close>

definition flattenEvents :: "TimeBlock list Record \<Rightarrow> (string, TimeBlock) Map" where
  "flattenEvents eventsByDay =
     foldl (\<lambda>result dayEvents.
              foldl (\<lambda>result ev. if id' ev = [] then result else Map_set (id' ev) ev result)
                    result dayEvents)
           [] (Object_values eventsByDay)"

text \<open>
  \<open>groupByDay\<close>: the first loop creates the day's array when it is missing and pushes
  the event; the second sorts each array by \<open>startMinutes\<close>
  (\<open>Array.prototype.sort\<close> is stable, as \<open>sort_key\<close> is).
\<close>

definition push_grouped :: "TimeBlock list Record \<Rightarrow> TimeBlock \<Rightarrow> TimeBlock list Record" where
  "push_grouped grouped event =
     (case obj_get grouped (dayIndex event) of
        None \<Rightarrow> obj_set (dayIndex event) [event] grouped
      | Some dayEvents \<Rightarrow> obj_set (dayIndex event) (dayEvents @ [event]) grouped)"

definition groupByDay :: "(string, TimeBlock) Map \<Rightarrow> TimeBlock list Record" where
  "groupByDay eventsMap =
     (let grouped = foldl push_grouped [] (Map_values eventsMap)
      in map (\<lambda>(dayKey, dayEvents). (dayKey, sort_key startMinutes dayEvents)) grouped)"

definition merge_incoming ::
  "(string, TimeBlock) Map \<Rightarrow> (string, TimeBlock) Map \<Rightarrow> (string, TimeBlock) Map
   \<Rightarrow> (string, TimeBlock) Map" where
  "merge_incoming baseMap incomingMap currentMap =
     foldl (\<lambda>cm (i, incomingEvent).
              if \<not> deepEqual (Some incomingEvent) (Map_get baseMap i)
              then Map_set i incomingEvent cm else cm)
           currentMap incomingMap"

definition merge_deleted ::
  "(string, TimeBlock) Map \<Rightarrow> (string, TimeBlock) Map \<Rightarrow> (string, TimeBlock) Map
   \<Rightarrow> (string, TimeBlock) Map" where
  "merge_deleted baseMap incomingMap currentMap =
     foldl (\<lambda>cm i. if \<not> Map_has incomingMap i then Map_delete i cm else cm)
           currentMap (Map_keys baseMap)"

definition mergeState :: "CalendarState \<Rightarrow> CalendarState \<Rightarrow> CalendarState \<Rightarrow> CalendarState" where
  "mergeState current base incoming =
     (let merged = current\<lparr>
            numDays := (if \<not> deepEqual (numDays incoming) (numDays base)
                        then numDays incoming else numDays current),
            startDate := (if \<not> deepEqual (startDate incoming) (startDate base)
                          then startDate incoming else startDate current),
            startHour := (if \<not> deepEqual (startHour incoming) (startHour base)
                          then startHour incoming else startHour current),
            endHour := (if \<not> deepEqual (endHour incoming) (endHour base)
                        then endHour incoming else endHour current),
            viewMode := (if \<not> deepEqual (viewMode incoming) (viewMode base)
                         then viewMode incoming else viewMode current)\<rparr>;
          baseMap = flattenEvents (events base);
          incomingMap = flattenEvents (events incoming);
          currentMap = flattenEvents (events current);
          currentMap1 = merge_incoming baseMap incomingMap currentMap;
          currentMap2 = merge_deleted baseMap incomingMap currentMap1
      in merged\<lparr>events := groupByDay currentMap2\<rparr>)"

text \<open>The in-memory store \<open>calendars\<close>: calendar id to entry.\<close>

record Calendar =
  cal_name :: string
  cal_state :: CalendarState
  revision :: int
  updatedAt :: string

type_synonym Store = "string \<rightharpoonup> Calendar"

text \<open>The body of a save request, and the handlers' answers.\<close>

record SaveBody =
  body_state :: CalendarState
  baseState :: "CalendarState option"
  baseRevision :: "int option"

record SaveResponse =
  res_state :: CalendarState
  res_revision :: int

datatype HttpError = NotFound

text \<open>
  \<open>POST /api/calendars\<close>: a new entry under a fresh id, at revision 0. The id, the
  initial document and the clock are the handler's inputs from its environment.
\<close>

definition create_calendar :: "Store \<Rightarrow> string \<Rightarrow> string \<Rightarrow> CalendarState \<Rightarrow> string \<Rightarrow> Store" where
  "create_calendar calendars newId name0 initial now =
     calendars(newId \<mapsto> \<lparr>cal_name = name0, cal_state = initial, revision = 0, updatedAt = now\<rparr>)"

text \<open>
  \<open>POST /api/calendars/:id\<close>. The file mirror written by \<open>writeCalendarToDisk\<close>
  holds no revision and is left out.
\<close>

definition save_nextState :: "Calendar \<Rightarrow> SaveBody \<Rightarrow> CalendarState" where
  "save_nextState cal body =
     (let incoming = normalizeState (body_state body);
          base = map_option normalizeState (baseState body)
      in case (baseRevision body, base) of
           (Some r, Some b) \<Rightarrow> if r \<noteq> revision cal then mergeState (cal_state cal) b incoming else incoming
         | _ \<Rightarrow> incoming)"

definition save_calendar :: "Store \<Rightarrow> string \<Rightarrow> SaveBody \<Rightarrow> string \<Rightarrow> Store \<times> (HttpError + SaveResponse)" where
  "save_calendar calendars cid body now =
     (case calendars cid of
        None \<Rightarrow> (calendars, Inl NotFound)
      | Some cal \<Rightarrow>
          (let nextState = save_nextState cal body
           in if deepEqual nextState (cal_state cal)
              then (calendars, Inr \<lparr>res_state = cal_state cal, res_revision = revision cal\<rparr>)
              else (let cal' = cal\<lparr>cal_state := nextState, revision := revision cal + 1, updatedAt := now\<rparr>
                    in (calendars(cid \<mapsto> cal'),
                        Inr \<lparr>res_state = cal_state cal', res_revision = revision cal'\<rparr>))))"

text \<open>
  The inner step of \<open>flattenEvents\<close>, the events of a document in enumeration order,
  and the invariant of a flattened map (each key once, every entry stored under its own
  non-empty id).
\<close>

definition flat_step :: "(string, TimeBlock) Map \<Rightarrow> TimeBlock \<Rightarrow> (string, TimeBlock) Map" where
  "flat_step result ev = (if id' ev = [] then result else Map_set (id' ev) ev result)"

definition allEvents :: "TimeBlock list Record \<Rightarrow> TimeBlock list" where
  "allEvents eventsByDay = concat (map snd eventsByDay)"

definition flat_inv :: "(string, TimeBlock) Map \<Rightarrow> bool" where
  "flat_inv m = (distinct (map fst m) \<and> (\<forall>(k, e) \<in> set m. k = id' e \<and> k \<noteq> []))"

text \<open>
  \<open>lookupEvent doc i\<close> is the event the merge engine sees under id \<open>i\<close> in a
  document; \<open>containsEvent doc e\<close> says that \<open>e\<close> stands in the day bucket of its
  own \<open>dayIndex\<close>; \<open>merged_map\<close> is the working map of \<open>mergeState\<close> after
  its two loops.
\<close>

definition lookupEvent :: "CalendarState \<Rightarrow> string \<Rightarrow> TimeBlock option" where
  "lookupEvent doc i = Map_get (flattenEvents (events doc)) i"

definition containsEvent :: "CalendarState \<Rightarrow> TimeBlock \<Rightarrow> bool" where
  "containsEvent doc e =
     (case obj_get (events doc) (dayIndex e) of
        None \<Rightarrow> False
      | Some dayEvents \<Rightarrow> e \<in> set dayEvents)"

definition merged_map :: "CalendarState \<Rightarrow> CalendarState \<Rightarrow> CalendarState \<Rightarrow> (string, TimeBlock) Map" where
  "merged_map current base incoming =
     merge_deleted (flattenEvents (events base)) (flattenEvents (events incoming))
       (merge_incoming (flattenEvents (events base)) (flattenEvents (events incoming))
          (flattenEvents (events current)))"

text \<open>
  The form \<open>groupByDay\<close> always produces: ascending day keys, no empty bucket, every
  event under the key of its \<open>dayIndex\<close> with a non-empty id, ids unique in the
  document, every bucket sorted by \<open>startMinutes\<close>.
\<close>

definition canonicalEvents :: "TimeBlock list Record \<Rightarrow> bool" where
  "canonicalEvents evs =
     (obj_wf evs \<and>
      (\<forall>(k, dayEvents) \<in> set evs.
         dayEvents \<noteq> [] \<and> (\<forall>e \<in> set dayEvents. dayIndex e = k \<and> id' e \<noteq> []) \<and>
         sorted (map startMinutes dayEvents)) \<and>
      distinct (map id' (allEvents evs)))"

section \<open>Example documents\<close>

definition block :: "string \<Rightarrow> int \<Rightarrow> int \<Rightarrow> int \<Rightarrow> string \<Rightarrow> TimeBlock" where
  "block i d s e t =
     \<lparr>id' = i, dayIndex = d, startMinutes = s, endMinutes = e, color = Some [], title = t,
      description = [], location = None, destination = None, routeMode = None,
      preciseRouteCache = None\<rparr>"

definition doc :: "TimeBlock list Record \<Rightarrow> CalendarState" where
  "doc evs =
     \<lparr>numDays = 5, startDate = ''2027-01-01T00:00:00.000Z'', startHour = 7, endHour = 22,
      viewMode = Row, events = evs\<rparr>"

definition entry :: "CalendarState \<Rightarrow> int \<Rightarrow> Calendar" where
  "entry d r = \<lparr>cal_name = ''Trip'', cal_state = d, revision = r, updatedAt = ''t0''\<rparr>"

definition evA :: TimeBlock where "evA = block ''A'' 1 600 660 ''Museum''"

definition evB :: TimeBlock where "evB = block ''B'' 0 540 600 ''Breakfast''"

definition evB' :: TimeBlock where "evB' = block ''B'' 0 540 630 ''Long breakfast''"

definition evX :: TimeBlock where "evX = block ''X'' 2 480 540 ''Train''"

definition evX' :: TimeBlock where "evX' = block ''X'' 2 480 600 ''Later train''"

section \<open>The planner client: text, dates, normalizer\<close>

text \<open>
  \<open>String.prototype.trim\<close> on ASCII text, the character classes of the two regular
  expressions, and \<open>Number\<close> on a string of decimal digits.
\<close>

definition isWhiteSpace :: "char \<Rightarrow> bool" where
  "isWhiteSpace c = (c \<in> set [CHR 0x09, CHR 0x0A, CHR 0x0B, CHR 0x0C, CHR 0x0D, CHR 0x20])"

definition trim :: "string \<Rightarrow> string" where
  "trim s = rev (dropWhile isWhiteSpace (rev (dropWhile isWhiteSpace s)))"

definition charIn :: "char \<Rightarrow> char \<Rightarrow> char \<Rightarrow> bool" where
  "charIn lo hi c = ((of_char lo :: nat) \<le> of_char c \<and> (of_char c :: nat) \<le> of_char hi)"

definition isDigit :: "char \<Rightarrow> bool" where
  "isDigit c = charIn CHR ''0'' CHR ''9'' c"

definition digitValue :: "char \<Rightarrow> int" where
  "digitValue c = int (of_char c) - 48"

definition Number :: "string \<Rightarrow> int" where
  "Number s = foldl (\<lambda>n c. 10 * n + digitValue c) 0 s"

text \<open>
  The two regular expressions, anchored at both ends: a date is four digits, a hyphen,
  two digits, a hyphen and two digits; a time is an hour from 00 to 23, a colon and a
  minute from 00 to 59. The groups are returned.
\<close>

fun matchIsoDate :: "string \<Rightarrow> (string \<times> string \<times> string) option" where
  "matchIsoDate [y1, y2, y3, y4, s1, m1, m2, s2, d1, d2] =
     (if isDigit y1 \<and> isDigit y2 \<and> isDigit y3 \<and> isDigit y4 \<and> s1 = CHR ''-'' \<and>
         isDigit m1 \<and> isDigit m2 \<and> s2 = CHR ''-'' \<and> isDigit d1 \<and> isDigit d2
      then Some ([y1, y2, y3, y4], [m1, m2], [d1, d2]) else None)"
| "matchIsoDate _ = None"

fun matchTime :: "string \<Rightarrow> (string \<times> string) option" where
  "matchTime [h1, h2, s, m1, m2] =
     (if ((charIn CHR ''0'' CHR ''1'' h1 \<and> isDigit h2) \<or> (h1 = CHR ''2'' \<and> charIn CHR ''0'' CHR ''3'' h2)) \<and>
         s = CHR '':'' \<and> charIn CHR ''0'' CHR ''5'' m1 \<and> isDigit m2
      then Some ([h1, h2], [m1, m2]) else None)"
| "matchTime _ = None"

text \<open>
  A JavaScript \<open>Date\<close> read in local time: its calendar fields (month 0 to 11) and
  the milliseconds since local midnight. \<open>new Date(y, m, d)\<close> and \<open>setDate\<close>
  normalise a month or a day out of range by carrying into the next or the previous
  month (\<open>rollDay\<close>); the constructor maps a year from 0 to 99 to 1900 plus the year.
  Time zones and daylight saving are left out: two local midnights differ by whole days,
  which is what \<open>Math.round\<close> in \<open>diffInDays\<close> recovers.
\<close>

record Date =
  getFullYear :: int
  getMonth :: int
  getDate :: int
  msOfDay :: int

definition isLeapYear :: "int \<Rightarrow> bool" where
  "isLeapYear y = (y mod 4 = 0 \<and> (y mod 100 \<noteq> 0 \<or> y mod 400 = 0))"

definition daysInMonth :: "int \<Rightarrow> int \<Rightarrow> int" where
  "daysInMonth y m =
     (if m = 1 then (if isLeapYear y then 29 else 28)
      else if m = 3 \<or> m = 5 \<or> m = 8 \<or> m = 10 then 30 else 31)"

definition prevMonth :: "int \<Rightarrow> int \<Rightarrow> int \<times> int" where
  "prevMonth y m = (if m = 0 then (y - 1, 11) else (y, m - 1))"

definition nextMonth :: "int \<Rightarrow> int \<Rightarrow> int \<times> int" where
  "nextMonth y m = (if m = 11 then (y + 1, 0) else (y, m + 1))"

function rollDay :: "int \<Rightarrow> int \<Rightarrow> int \<Rightarrow> int \<times> int \<times> int" where
  "rollDay y m d =
     (if d < 1 then
        rollDay (fst (prevMonth y m)) (snd (prevMonth y m))
                (d + daysInMonth (fst (prevMonth y m)) (snd (prevMonth y m)))
      else if daysInMonth y m < d then
        rollDay (fst (nextMonth y m)) (snd (nextMonth y m)) (d - daysInMonth y m)
      else (y, m, d))"
  by pat_completeness auto

termination
  by (relation "measure (\<lambda>(y, m, d). if d < 1 then nat (33 - d) else nat d)")
     (auto simp: daysInMonth_def)

declare rollDay.simps [simp del]

definition makeDate :: "int \<Rightarrow> int \<Rightarrow> int \<Rightarrow> int \<Rightarrow> Date" where
  "makeDate y monthIndex d ms =
     (case rollDay (y + monthIndex div 12) (monthIndex mod 12) d of
        (y', m', d') \<Rightarrow> \<lparr>getFullYear = y', getMonth = m', getDate = d', msOfDay = ms\<rparr>)"

definition new_Date :: "int \<Rightarrow> int \<Rightarrow> int \<Rightarrow> Date" where
  "new_Date y monthIndex d =
     makeDate (if 0 \<le> y \<and> y \<le> 99 then 1900 + y else y) monthIndex d 0"

definition setDate :: "Date \<Rightarrow> int \<Rightarrow> Date" where
  "setDate v d = makeDate (getFullYear v) (getMonth v) d (msOfDay v)"

definition toLocalDay :: "Date \<Rightarrow> Date" where
  "toLocalDay v = new_Date (getFullYear v) (getMonth v) (getDate v)"

definition addDays :: "Date \<Rightarrow> int \<Rightarrow> Date" where
  "addDays v days = setDate v (getDate v + days)"

definition daysBeforeYear :: "int \<Rightarrow> int" where
  "daysBeforeYear y = 365 * y + (y - 1) div 4 - (y - 1) div 100 + (y - 1) div 400"

definition daysBeforeMonth :: "int \<Rightarrow> int \<Rightarrow> int" where
  "daysBeforeMonth y m =
     [0, 31, 59, 90, 120, 151, 181, 212, 243, 273, 304, 334] ! nat m
       + (if 2 \<le> m \<and> isLeapYear y then 1 else 0)"

definition dayNumber :: "Date \<Rightarrow> int" where
  "dayNumber v = daysBeforeYear (getFullYear v) + daysBeforeMonth (getFullYear v) (getMonth v)
                   + getDate v - 1"

definition diffInDays :: "Date \<Rightarrow> Date \<Rightarrow> int" where
  "diffInDays left right = dayNumber (toLocalDay left) - dayNumber (toLocalDay right)"

definition parseIsoDateOnly :: "string \<Rightarrow> Date option" where
  "parseIsoDateOnly v =
     (case matchIsoDate (trim v) of
        None \<Rightarrow> None
      | Some (ys, ms, ds) \<Rightarrow>
          (let y = Number ys; month = Number ms; d = Number ds;
               parsed = new_Date y (month - 1) d
           in if getFullYear parsed \<noteq> y \<or> getMonth parsed \<noteq> month - 1 \<or> getDate parsed \<noteq> d
              then None else Some parsed))"

definition parseTimeToMinutes :: "string \<Rightarrow> int option" where
  "parseTimeToMinutes v =
     (case matchTime (trim v) of
        None \<Rightarrow> None
      | Some (hh, mm) \<Rightarrow> Some (Number hh * 60 + Number mm))"

definition rawDay :: "int \<Rightarrow> int \<Rightarrow> int \<Rightarrow> int" where
  "rawDay y m d = daysBeforeYear y + daysBeforeMonth y m + d - 1"

text \<open>
  A raw proposed event and a normalized candidate (\<open>AiPlanEvent\<close>,
  \<open>ParsedPlanEvent\<close>), and the first loop of \<open>applyPlannedEvents\<close>:
  \<open>normalizeItem\<close> is its body for one item, \<open>parsePlanned\<close> the loop with its
  list of candidates and its count of invalid items. \<open>orElse s d\<close> is \<open>s || d\<close>.
\<close>

record AiPlanEvent =
  ai_title :: string
  ai_description :: "string option"
  ai_date :: string
  startTime :: string
  endTime :: string
  ai_origin :: "string option"
  ai_destination :: "string option"
  ai_color :: "string option"

record ParsedPlanEvent =
  pe_title :: string
  pe_description :: string
  pe_date :: Date
  dayDiff :: int
  pe_startMinutes :: int
  pe_endMinutes :: int
  pe_origin :: "string option"
  pe_destination :: "string option"
  pe_color :: "string option"

definition isHexDigit :: "char \<Rightarrow> bool" where
  "isHexDigit c = (isDigit c \<or> charIn CHR ''a'' CHR ''f'' c \<or> charIn CHR ''A'' CHR ''F'' c)"

definition normalizeHexColor :: "string option \<Rightarrow> string option" where
  "normalizeHexColor v =
     (case v of
        None \<Rightarrow> None
      | Some s \<Rightarrow>
          if s = [] then None
          else (let trimmed = trim s
                in if length trimmed = 7 \<and> hd trimmed = CHR ''#'' \<and> list_all isHexDigit (tl trimmed)
                   then Some trimmed else None))"

definition orElse :: "string \<Rightarrow> string \<Rightarrow> string" where
  "orElse s dflt = (if s = [] then dflt else s)"

text \<open>The two clamps of the normalizer loop, \<open>startMinutes\<close> and \<open>endMinutes\<close>.\<close>

definition clampStart :: "int \<Rightarrow> int" where
  "clampStart startMinutesRaw = max 0 (min (23 * 60 + 30) startMinutesRaw)"

definition clampEnd :: "int \<Rightarrow> int \<Rightarrow> int" where
  "clampEnd startMins endMinutesRaw =
     max (startMins + 30)
         (min (24 * 60) (if endMinutesRaw > startMins then endMinutesRaw else startMins + 60))"

definition normalizeItem :: "Date \<Rightarrow> AiPlanEvent \<Rightarrow> ParsedPlanEvent option" where
  "normalizeItem currentStartDay item =
     (case (parseIsoDateOnly (ai_date item), parseTimeToMinutes (startTime item),
            parseTimeToMinutes (endTime item)) of
        (Some date, Some startMinutesRaw, Some endMinutesRaw) \<Rightarrow>
          (let startMinutes = clampStart startMinutesRaw;
               endMinutes = clampEnd startMinutes endMinutesRaw
           in Some \<lparr>pe_title = orElse (trim (ai_title item)) ''Untitled'',
                    pe_description = orElse (case ai_description item of None \<Rightarrow> [] | Some d \<Rightarrow> trim d) [],
                    pe_date = date,
                    dayDiff = diffInDays date currentStartDay,
                    pe_startMinutes = startMinutes,
                    pe_endMinutes = endMinutes,
                    pe_origin = map_option trim (ai_origin item),
                    pe_destination = map_option trim (ai_destination item),
                    pe_color = normalizeHexColor (ai_color item)\<rparr>)
      | _ \<Rightarrow> None)"

definition parsePlanned :: "Date \<Rightarrow> AiPlanEvent list \<Rightarrow> ParsedPlanEvent list \<times> int" where
  "parsePlanned currentStartDay plannedEvents =
     foldl (\<lambda>(parsed, skippedInvalid) item.
              case normalizeItem currentStartDay item of
                None \<Rightarrow> (parsed, skippedInvalid + 1)
              | Some p \<Rightarrow> (parsed @ [p], skippedInvalid))
           ([], 0) plannedEvents"

text \<open>
  What the specification asks of the text of a time and of a date, written from its
  words, to be compared with the parsers.
\<close>

definition isTimeText :: "string \<Rightarrow> bool" where
  "isTimeText s =
     (length s = 5 \<and> isDigit (s ! 0) \<and> isDigit (s ! 1) \<and> s ! 2 = CHR '':'' \<and>
      isDigit (s ! 3) \<and> isDigit (s ! 4) \<and>
      Number (take 2 s) \<le> 23 \<and> Number (drop 3 s) \<le> 59)"

definition isDateText :: "string \<Rightarrow> bool" where
  "isDateText s =
     (length s = 10 \<and> isDigit (s ! 0) \<and> isDigit (s ! 1) \<and> isDigit (s ! 2) \<and> isDigit (s ! 3) \<and>
      s ! 4 = CHR ''-'' \<and> isDigit (s ! 5) \<and> isDigit (s ! 6) \<and> s ! 7 = CHR ''-'' \<and>
      isDigit (s ! 8) \<and> isDigit (s ! 9))"

definition yearOf :: "string \<Rightarrow> int" where "yearOf s = Number (take 4 s)"

definition monthOf :: "string \<Rightarrow> int" where "monthOf s = Number (take 2 (drop 5 s))"

definition dayOf :: "string \<Rightarrow> int" where "dayOf s = Number (drop 8 s)"

definition isRealDateText :: "string \<Rightarrow> bool" where
  "isRealDateText s =
     (isDateText s \<and> 1 \<le> monthOf s \<and> monthOf s \<le> 12 \<and>
      1 \<le> dayOf s \<and> dayOf s \<le> daysInMonth (yearOf s) (monthOf s - 1))"

section \<open>The planner client: scheduler, rollback ledger, chat handlers\<close>

text \<open>
  \<open>startDateIso\<close> holds the date its ISO string denotes. The geocoder
  (\<open>geocodeLocationByName\<close>, cached per name within a batch), the palette and the id
  generator (the id of the n-th block created in a batch) are parameters. The loop over
  the sorted candidates is \<open>placeAll\<close>, its body \<open>placeEvent\<close>, its state
  \<open>PlaceState\<close>; the React state the handlers read and set is \<open>AppState\<close>, with
  the setters applied as record updates.
\<close>

record RollbackSnapshot =
  snap_events :: "TimeBlock list Record"
  snap_numDays :: int
  startDateIso :: Date
  snap_dayViewIndex :: int

record ApplyPlanResult =
  created :: int
  unresolvedPlaces :: "string list"
  skippedInvalid :: int
  skippedOverlap :: int

definition cloneEvents :: "TimeBlock list Record \<Rightarrow> TimeBlock list Record" where
  "cloneEvents source =
     foldl (\<lambda>clone (dayKey, dayEvents). obj_set dayKey (map (\<lambda>event. event) dayEvents) clone)
           [] (Object_entries source)"

definition hasTimeOverlap :: "int \<Rightarrow> int \<Rightarrow> int \<Rightarrow> int \<Rightarrow> bool" where
  "hasTimeOverlap aStart aEnd bStart bEnd = (aStart < bEnd \<and> aEnd > bStart)"

definition sortParsed :: "ParsedPlanEvent list \<Rightarrow> ParsedPlanEvent list" where
  "sortParsed parsed = sort_key (\<lambda>e. (dayDiff e, pe_startMinutes e)) parsed"

definition planOffset :: "ParsedPlanEvent list \<Rightarrow> int" where
  "planOffset parsed =
     (let minDayDiff = min_list (map dayDiff parsed)
      in if minDayDiff < 0 then - minDayDiff else 0)"

definition shiftEvents :: "int \<Rightarrow> TimeBlock list Record \<Rightarrow> TimeBlock list Record" where
  "shiftEvents offset evs =
     foldl (\<lambda>shiftedEvents (oldDayIndex, dayEvents).
              (let nextDayIndex = oldDayIndex + offset
               in obj_set nextDayIndex
                    (map (\<lambda>event. event\<lparr>dayIndex := nextDayIndex\<rparr>) dayEvents) shiftedEvents))
           [] (Object_entries evs)"

definition Set_add :: "'a \<Rightarrow> 'a list \<Rightarrow> 'a list" where
  "Set_add x xs = (if x \<in> set xs then xs else xs @ [x])"

definition resolvePlace ::
  "(string \<Rightarrow> LocationData option) \<Rightarrow> string option \<Rightarrow> string list
   \<Rightarrow> LocationData option \<times> string list" where
  "resolvePlace geocode place unresolved =
     (case place of
        None \<Rightarrow> (None, unresolved)
      | Some p \<Rightarrow>
          (let key = trim p
           in if key = [] then (None, unresolved)
              else (case geocode key of
                      None \<Rightarrow> (None, Set_add key unresolved)
                    | Some resolved \<Rightarrow> (Some resolved, unresolved))))"

record PlaceState =
  nextEvents :: "TimeBlock list Record"
  ps_created :: int
  ps_skippedOverlap :: int
  colorIdx :: int
  ps_unresolved :: "string list"

definition paletteColor :: "string list \<Rightarrow> int \<Rightarrow> string option" where
  "paletteColor palette idx =
     (if palette = [] then None else Some (palette ! nat (idx mod int (length palette))))"

definition bucketOf :: "TimeBlock list Record \<Rightarrow> int \<Rightarrow> TimeBlock list" where
  "bucketOf evs dayIdx = (case obj_get evs dayIdx of None \<Rightarrow> [] | Some dayEvents \<Rightarrow> dayEvents)"

definition overlapsExisting :: "int \<Rightarrow> PlaceState \<Rightarrow> ParsedPlanEvent \<Rightarrow> bool" where
  "overlapsExisting offset st event =
     list_ex (\<lambda>existing. hasTimeOverlap (pe_startMinutes event) (pe_endMinutes event)
                            (startMinutes existing) (endMinutes existing))
             (bucketOf (nextEvents st) (dayDiff event + offset))"

definition newBlock ::
  "(string \<Rightarrow> LocationData option) \<Rightarrow> string list \<Rightarrow> (nat \<Rightarrow> string) \<Rightarrow> int
   \<Rightarrow> PlaceState \<Rightarrow> ParsedPlanEvent \<Rightarrow> TimeBlock" where
  "newBlock geocode palette generateId offset st event =
     \<lparr>id' = generateId (nat (ps_created st)),
      dayIndex = dayDiff event + offset,
      startMinutes = pe_startMinutes event,
      endMinutes = pe_endMinutes event,
      color = (case pe_color event of
                 Some c \<Rightarrow> if c = [] then paletteColor palette (colorIdx st) else Some c
               | None \<Rightarrow> paletteColor palette (colorIdx st)),
      title = pe_title event,
      description = pe_description event,
      location = fst (resolvePlace geocode (pe_origin event) (ps_unresolved st)),
      destination = fst (resolvePlace geocode (pe_destination event)
                           (snd (resolvePlace geocode (pe_origin event) (ps_unresolved st)))),
      routeMode = Some ''simple'',
      preciseRouteCache = None\<rparr>"

definition placeEvent ::
  "(string \<Rightarrow> LocationData option) \<Rightarrow> string list \<Rightarrow> (nat \<Rightarrow> string) \<Rightarrow> int
   \<Rightarrow> PlaceState \<Rightarrow> ParsedPlanEvent \<Rightarrow> PlaceState" where
  "placeEvent geocode palette generateId offset st event =
     (let dayIdx = dayDiff event + offset;
          dayEvents = bucketOf (nextEvents st) dayIdx
      in if overlapsExisting offset st event
         then st\<lparr>ps_skippedOverlap := ps_skippedOverlap st + 1\<rparr>
         else (let block = newBlock geocode palette generateId offset st event
               in st\<lparr>nextEvents := obj_set dayIdx (sort_key startMinutes (dayEvents @ [block]))
                                        (nextEvents st),
                     ps_created := ps_created st + 1,
                     colorIdx := colorIdx st + 1,
                     ps_unresolved :=
                       snd (resolvePlace geocode (pe_destination event)
                              (snd (resolvePlace geocode (pe_origin event) (ps_unresolved st))))\<rparr>))"

definition placeAll ::
  "(string \<Rightarrow> LocationData option) \<Rightarrow> string list \<Rightarrow> (nat \<Rightarrow> string) \<Rightarrow> int
   \<Rightarrow> PlaceState \<Rightarrow> ParsedPlanEvent list \<Rightarrow> PlaceState" where
  "placeAll geocode palette generateId offset st parsed =
     foldl (placeEvent geocode palette generateId offset) st parsed"

definition planCandidates :: "RollbackSnapshot \<Rightarrow> AiPlanEvent list \<Rightarrow> ParsedPlanEvent list" where
  "planCandidates snapshot plannedEvents =
     sortParsed (fst (parsePlanned (toLocalDay (startDateIso snapshot)) plannedEvents))"

definition planStart :: "int \<Rightarrow> RollbackSnapshot \<Rightarrow> PlaceState" where
  "planStart offset snapshot =
     \<lparr>nextEvents = cloneEvents (shiftEvents offset (snap_events snapshot)),
      ps_created = 0, ps_skippedOverlap = 0, colorIdx = 0, ps_unresolved = []\<rparr>"

datatype Role = User | Assistant

datatype Variant = Default | Success | Error

record AiChatMessage =
  msg_role :: Role
  msg_text :: string
  msg_variant :: "Variant option"

definition DEFAULT_AI_MESSAGES :: "AiChatMessage list" where
  "DEFAULT_AI_MESSAGES =
     [\<lparr>msg_role = Assistant,
       msg_text = ''Tell me where and when you want to go, and I will create calendar events for you.'',
       msg_variant = None\<rparr>]"

record AppState =
  st_numDays :: int
  st_startDate :: Date
  st_events :: "TimeBlock list Record"
  dayViewIndex :: int
  currentCalendarId :: "string option"
  currentCalendarIdRef :: "string option"
  aiMessagesByCalendar :: "string \<rightharpoonup> AiChatMessage list"
  aiRollbackByCalendar :: "string \<rightharpoonup> RollbackSnapshot option"
  aiLoading :: bool

definition runPlacement ::
  "(string \<Rightarrow> LocationData option) \<Rightarrow> string list \<Rightarrow> (nat \<Rightarrow> string)
   \<Rightarrow> AiPlanEvent list \<Rightarrow> RollbackSnapshot \<Rightarrow> PlaceState" where
  "runPlacement geocode palette generateId plannedEvents snapshot =
     (let parsed = planCandidates snapshot plannedEvents;
          offset = planOffset parsed
      in placeAll geocode palette generateId offset (planStart offset snapshot) parsed)"

definition applyPlannedEvents ::
  "(string \<Rightarrow> LocationData option) \<Rightarrow> string list \<Rightarrow> (nat \<Rightarrow> string)
   \<Rightarrow> AiPlanEvent list \<Rightarrow> RollbackSnapshot \<Rightarrow> AppState \<Rightarrow> AppState \<times> ApplyPlanResult" where
  "applyPlannedEvents geocode palette generateId plannedEvents snapshot st =
     (let snapshotStartDate = startDateIso snapshot;
          currentStartDay = toLocalDay snapshotStartDate;
          skipped = snd (parsePlanned currentStartDay plannedEvents);
          parsed = planCandidates snapshot plannedEvents
      in if parsed = []
         then (st, \<lparr>created = 0, unresolvedPlaces = [], skippedInvalid = skipped, skippedOverlap = 0\<rparr>)
         else (let offset = planOffset parsed;
                   shiftedStartDate = addDays snapshotStartDate (- offset);
                   fin = runPlacement geocode palette generateId plannedEvents snapshot
               in if ps_created fin = 0
                  then (st, \<lparr>created = 0, unresolvedPlaces = ps_unresolved fin,
                             skippedInvalid = skipped, skippedOverlap = ps_skippedOverlap fin\<rparr>)
                  else (let maxIndex = foldl (\<lambda>mx key. max mx key) (- 1) (Object_keys (nextEvents fin));
                            nextNumDays = max (snap_numDays snapshot + offset) (maxIndex + 1)
                        in (st\<lparr>st_startDate := shiftedStartDate,
                                dayViewIndex := snap_dayViewIndex snapshot + offset,
                                st_numDays := nextNumDays,
                                st_events := nextEvents fin\<rparr>,
                            \<lparr>created = ps_created fin, unresolvedPlaces = ps_unresolved fin,
                             skippedInvalid = skipped, skippedOverlap = ps_skippedOverlap fin\<rparr>))))"

text \<open>
Example inputs.
\<close>

definition planItem :: "string \<Rightarrow> string \<Rightarrow> string \<Rightarrow> string \<Rightarrow> AiPlanEvent" where
  "planItem t d s e =
     \<lparr>ai_title = t, ai_description = None, ai_date = d, startTime = s, endTime = e,
      ai_origin = None, ai_destination = None, ai_color = None\<rparr>"

definition emptyApp :: "Date \<Rightarrow> TimeBlock list Record \<Rightarrow> AppState" where
  "emptyApp d evs =
     \<lparr>st_numDays = 5, st_startDate = d, st_events = evs, dayViewIndex = 0,
      currentCalendarId = Some ''cal-1'', currentCalendarIdRef = Some ''cal-1'',
      aiMessagesByCalendar = Map.empty, aiRollbackByCalendar = Map.empty, aiLoading = False\<rparr>"

definition snapshotOf :: "Date \<Rightarrow> TimeBlock list Record \<Rightarrow> RollbackSnapshot" where
  "snapshotOf d evs = \<lparr>snap_events = evs, snap_numDays = 5, startDateIso = d, snap_dayViewIndex = 0\<rparr>"

text \<open>
  The overlap law of a document: in every day bucket no two events overlap
  (\<open>hasTimeOverlap\<close> is symmetric, so each pair is tested once).
\<close>

definition blocksOverlap :: "TimeBlock \<Rightarrow> TimeBlock \<Rightarrow> bool" where
  "blocksOverlap a b = hasTimeOverlap (startMinutes a) (endMinutes a) (startMinutes b) (endMinutes b)"

definition overlapFree :: "TimeBlock list Record \<Rightarrow> bool" where
  "overlapFree evs = list_all (\<lambda>(dayKey, dayEvents). sorted_wrt (\<lambda>a b. \<not> blocksOverlap a b) dayEvents) evs"

definition shiftEntry :: "int \<Rightarrow> int \<times> TimeBlock list \<Rightarrow> int \<times> TimeBlock list" where
  "shiftEntry offset p = (fst p + offset, map (\<lambda>event. event\<lparr>dayIndex := fst p + offset\<rparr>) (snd p))"

text \<open>
  The pre-existing events of day index \<open>d\<close> as the scheduler re-indexes them (the
  loop over \<open>Object.entries(snapshot.events)\<close>): those the snapshot stores under
  \<open>d - offset\<close>, each with \<open>dayIndex\<close> set to \<open>d\<close>.
\<close>

definition shiftedDay :: "int \<Rightarrow> RollbackSnapshot \<Rightarrow> int \<Rightarrow> TimeBlock list" where
  "shiftedDay offset snapshot d =
     map (\<lambda>event. event\<lparr>dayIndex := d\<rparr>) (bucketOf (snap_events snapshot) (d - offset))"

text \<open>
  The blocks the placement loop creates for a list of candidates, in the order of their
  creation: one for each candidate that passes the overlap test when its turn comes.
\<close>

fun acceptedBlocks ::
  "(string \<Rightarrow> LocationData option) \<Rightarrow> string list \<Rightarrow> (nat \<Rightarrow> string) \<Rightarrow> int
   \<Rightarrow> PlaceState \<Rightarrow> ParsedPlanEvent list \<Rightarrow> TimeBlock list" where
  "acceptedBlocks geocode palette generateId offset st [] = []"
| "acceptedBlocks geocode palette generateId offset st (event # rest) =
     (if overlapsExisting offset st event then []
      else [newBlock geocode palette generateId offset st event])
     @ acceptedBlocks geocode palette generateId offset
         (placeEvent geocode palette generateId offset st event) rest"

text \<open>
  Every overlapping pair of a day bucket is a pair of old events (each pair is tested
  once, \<open>hasTimeOverlap\<close> being symmetric).
\<close>

definition onlyOldOverlap :: "TimeBlock list \<Rightarrow> TimeBlock list \<Rightarrow> bool" where
  "onlyOldOverlap old dayEvents =
     sorted_wrt (\<lambda>a b. blocksOverlap a b \<longrightarrow> a \<in> set old \<and> b \<in> set old) dayEvents"

text \<open>
  The planner's response as the client reads it (\<open>response_ok\<close> is
  \<open>response.ok\<close>), and the chat handlers. Chat messages carry no id here.
\<close>

datatype PlanStatus = Ready | NeedsClarification

record AiPlanResponse =
  response_ok :: bool
  status :: PlanStatus
  assistantMessage :: "string option"
  plan_events :: "AiPlanEvent list"
  err_error :: "string option"
  err_detail :: "string option"

fun join :: "string \<Rightarrow> string list \<Rightarrow> string" where
  "join sep [] = []"
| "join sep [x] = x"
| "join sep (x # y # ys) = x @ sep @ join sep (y # ys)"

definition appendAiMessage :: "string \<Rightarrow> AiChatMessage \<Rightarrow> AppState \<Rightarrow> AppState" where
  "appendAiMessage calendarId message st =
     st\<lparr>aiMessagesByCalendar :=
          (aiMessagesByCalendar st)(calendarId \<mapsto>
             (case aiMessagesByCalendar st calendarId of
                None \<Rightarrow> DEFAULT_AI_MESSAGES
              | Some current \<Rightarrow> current) @ [message])\<rparr>"

definition appendAiAssistantMessage :: "string \<Rightarrow> string \<Rightarrow> Variant \<Rightarrow> AppState \<Rightarrow> AppState" where
  "appendAiAssistantMessage calendarId text variant st =
     (let trimmed = trim text
      in if trimmed = [] then st
         else appendAiMessage calendarId
                \<lparr>msg_role = Assistant, msg_text = trimmed, msg_variant = Some variant\<rparr> st)"

text \<open>
  The snapshot \<open>handleAiMessage\<close> builds when a request starts. \<open>startDateIso\<close> holds
  the date that the ISO string denotes (\<open>new Date(d.toISOString())\<close> is \<open>d\<close>).
\<close>

definition makeSnapshot :: "AppState \<Rightarrow> RollbackSnapshot" where
  "makeSnapshot st =
     \<lparr>snap_events = cloneEvents (st_events st),
      snap_numDays = st_numDays st,
      startDateIso = st_startDate st,
      snap_dayViewIndex = dayViewIndex st\<rparr>"

text \<open>
  \<open>handleAiMessage\<close> up to its \<open>await fetch\<close>: the guards, the user's message, the
  loading flag, and what the continuation keeps (the request's calendar id and the
  snapshot).
\<close>

definition handleAiMessage_start :: "string \<Rightarrow> AppState \<Rightarrow> AppState \<times> (string \<times> RollbackSnapshot) option" where
  "handleAiMessage_start text st =
     (case currentCalendarId st of
        None \<Rightarrow> (st, None)
      | Some requestCalendarId \<Rightarrow>
          if aiLoading st then (st, None)
          else ((appendAiMessage requestCalendarId
                   \<lparr>msg_role = User, msg_text = text, msg_variant = None\<rparr> st)\<lparr>aiLoading := True\<rparr>,
                Some (requestCalendarId, makeSnapshot st)))"

text \<open>The rollback ledger's write: \<open>setAiRollbackByCalendar\<close> with the snapshot.\<close>

definition captureRollback :: "string \<Rightarrow> RollbackSnapshot \<Rightarrow> AppState \<Rightarrow> AppState" where
  "captureRollback requestCalendarId snapshot st =
     st\<lparr>aiRollbackByCalendar := (aiRollbackByCalendar st)(requestCalendarId \<mapsto> Some snapshot)\<rparr>"

definition plural :: "int \<Rightarrow> string" where
  "plural n = (if n = 1 then [] else ''s'')"

definition summaryLines :: "(int \<Rightarrow> string) \<Rightarrow> string \<Rightarrow> ApplyPlanResult \<Rightarrow> string list" where
  "summaryLines showNum assistantMsg result =
     [assistantMsg,
      ''Added '' @ showNum (created result) @ '' event'' @ plural (created result) @ '' to your calendar.'']
     @ (if skippedOverlap result > 0
        then [''Skipped '' @ showNum (skippedOverlap result) @ '' event'' @ plural (skippedOverlap result)
              @ '' because they overlap existing events.'']
        else [])
     @ (if skippedInvalid result > 0
        then [''Skipped '' @ showNum (skippedInvalid result) @ '' item'' @ plural (skippedInvalid result)
              @ '' due to invalid or missing date/time.'']
        else [])
     @ (if unresolvedPlaces result \<noteq> []
        then [''I could not resolve these locations automatically: '' @ join '', '' (unresolvedPlaces result)]
        else [])
     @ (if created result > 0 then [''Use Rollback to undo this AI-generated batch.''] else [])"

text \<open>
  \<open>handleAiMessage\<close> from the arrival of the planner's response up to its next
  \<open>await\<close>, run on the application state of that moment: the error path, the
  staleness test on \<open>currentCalendarIdRef\<close>, and the reply without events, each of
  which ends the handler (\<open>finally\<close> clears the loading flag). With a ready,
  non-empty batch the handler goes on to \<open>await applyPlannedEvents\<close>; the result then
  holds the assistant's message for the continuation.
\<close>

definition handleAiMessage_response ::
  "string \<Rightarrow> AiPlanResponse \<Rightarrow> AppState \<Rightarrow> AppState \<times> string option" where
  "handleAiMessage_response requestCalendarId payload st =
     (if \<not> response_ok payload then
        (let detail = join '' '' (filter (\<lambda>s. s \<noteq> [])
                        (map (case_option [] (\<lambda>s. s)) [err_error payload, err_detail payload]))
         in ((appendAiAssistantMessage requestCalendarId
                (orElse detail ''The AI planner request failed.'') Error st)\<lparr>aiLoading := False\<rparr>,
             None))
      else
        (let assistantMsg =
               orElse (case assistantMessage payload of None \<Rightarrow> [] | Some m \<Rightarrow> trim m)
                 ''Please provide a little more detail so I can schedule this accurately.''
         in if currentCalendarIdRef st \<noteq> Some requestCalendarId then
              ((appendAiAssistantMessage requestCalendarId
                  (assistantMsg @ [CHR 0x0A] @
                   ''You switched calendars before I could apply the result. Re-open this calendar and run it again.'')
                  Error st)\<lparr>aiLoading := False\<rparr>,
               None)
            else if status payload = Ready \<and> plan_events payload \<noteq> [] then
              (st, Some assistantMsg)
            else
              ((appendAiAssistantMessage requestCalendarId assistantMsg Default st)\<lparr>aiLoading := False\<rparr>,
               None)))"

text \<open>
  The rest of \<open>handleAiMessage\<close>, run on the application state of the moment the
  geocoder's promises have resolved: \<open>applyPlannedEvents\<close> computes the batch from the
  snapshot and calls its setters, then the handler writes the rollback ledger and the
  summary. Nothing on this path reads \<open>currentCalendarIdRef\<close>.
\<close>

definition handleAiMessage_applied ::
  "(string \<Rightarrow> LocationData option) \<Rightarrow> string list \<Rightarrow> (nat \<Rightarrow> string) \<Rightarrow> (int \<Rightarrow> string)
   \<Rightarrow> string \<Rightarrow> RollbackSnapshot \<Rightarrow> string \<Rightarrow> AiPlanEvent list \<Rightarrow> AppState \<Rightarrow> AppState" where
  "handleAiMessage_applied geocode palette generateId showNum requestCalendarId snapshot
       assistantMsg plannedEvents st =
     (let applied = applyPlannedEvents geocode palette generateId plannedEvents snapshot st;
          result = snd applied;
          st1 = (if created result > 0
                 then captureRollback requestCalendarId snapshot (fst applied)
                 else fst applied)
      in (appendAiAssistantMessage requestCalendarId
            (join [CHR 0x0A] (summaryLines showNum assistantMsg result))
            (if created result > 0 then Success else Error) st1)\<lparr>aiLoading := False\<rparr>)"

text \<open>
  \<open>loadCalendar\<close> after a successful fetch, the action behind a calendar switch:
  \<open>applyCalendarState\<close> with the loaded document (its start date parsed; the hours and
  the view mode are not part of \<open>AppState\<close>), \<open>setCurrentCalendarId\<close>, and the effect
  that copies the id into \<open>currentCalendarIdRef\<close>.
\<close>

definition loadCalendar :: "string \<Rightarrow> int \<Rightarrow> Date \<Rightarrow> TimeBlock list Record \<Rightarrow> AppState \<Rightarrow> AppState" where
  "loadCalendar calId loadedNumDays loadedStartDate loadedEvents st =
     st\<lparr>st_numDays := loadedNumDays,
        st_startDate := loadedStartDate,
        st_events := loadedEvents,
        currentCalendarId := Some calId,
        currentCalendarIdRef := Some calId\<rparr>"

text \<open>
  The handler from the planner's response to its end. \<open>whileGeocoding\<close> is what
  happens to the application state while \<open>applyPlannedEvents\<close> awaits the geocoder
  (the identity when nothing happens, \<open>loadCalendar\<close> when the user switches
  calendars).
\<close>

definition handleAiMessage_complete ::
  "(string \<Rightarrow> LocationData option) \<Rightarrow> string list \<Rightarrow> (nat \<Rightarrow> string) \<Rightarrow> (int \<Rightarrow> string)
   \<Rightarrow> string \<Rightarrow> RollbackSnapshot \<Rightarrow> AiPlanResponse \<Rightarrow> (AppState \<Rightarrow> AppState) \<Rightarrow> AppState
   \<Rightarrow> AppState" where
  "handleAiMessage_complete geocode palette generateId showNum requestCalendarId snapshot payload
       whileGeocoding st =
     (case handleAiMessage_response requestCalendarId payload st of
        (st', None) \<Rightarrow> st'
      | (st', Some assistantMsg) \<Rightarrow>
          handleAiMessage_applied geocode palette generateId showNum requestCalendarId snapshot
            assistantMsg (plan_events payload) (whileGeocoding st'))"

definition handleAiRollback :: "AppState \<Rightarrow> AppState" where
  "handleAiRollback st =
     (case currentCalendarId st of
        None \<Rightarrow> st
      | Some cid \<Rightarrow>
          (case aiRollbackByCalendar st cid of
             Some (Some snapshot) \<Rightarrow>
               appendAiAssistantMessage cid ''Rolled back the last AI-generated event batch.'' Success
                 (st\<lparr>st_events := cloneEvents (snap_events snapshot),
                      st_numDays := snap_numDays snapshot,
                      st_startDate := startDateIso snapshot,
                      dayViewIndex := snap_dayViewIndex snapshot,
                      aiRollbackByCalendar := (aiRollbackByCalendar st)(cid \<mapsto> None)\<rparr>)
           | _ \<Rightarrow> st))"

text \<open>
  The validity the claim words: the date is a real calendar date written as four, two
  and two digits, and both times are 24-hour \<open>HH:MM\<close> from 00:00 to 23:59.
\<close>

definition validPlanItem :: "AiPlanEvent \<Rightarrow> bool" where
  "validPlanItem item =
     (isRealDateText (trim (ai_date item)) \<and> isTimeText (trim (startTime item)) \<and>
      isTimeText (trim (endTime item)))"

text \<open>
  What the normalizer accepts: a valid item whose year is 0100 or later
  (\<open>normalizeItem_None_iff\<close>).
\<close>

definition acceptedPlanItem :: "AiPlanEvent \<Rightarrow> bool" where
  "acceptedPlanItem item = (validPlanItem item \<and> 100 \<le> yearOf (trim (ai_date item)))"

definition noGeocode :: "string \<Rightarrow> LocationData option" where
  "noGeocode key = None"

definition palette2 :: "string list" where
  "palette2 = [''#111111'', ''#222222'']"

definition idOf :: "nat \<Rightarrow> string" where
  "idOf n = ''ai-'' @ replicate n CHR ''x''"

definition showUnary :: "int \<Rightarrow> string" where
  "showUnary n = replicate (nat n) CHR ''I''"

definition jan :: "int \<Rightarrow> Date" where
  "jan d = \<lparr>getFullYear = 2027, getMonth = 0, getDate = d, msOfDay = 0\<rparr>"

definition oldBlock :: "int \<Rightarrow> TimeBlock" where
  "oldBlock d = block ''old'' d 480 530 ''Old''"

definition itemsABC :: "AiPlanEvent list" where
  "itemsABC = [planItem ''A'' ''2027-01-02'' ''09:00'' ''10:00'',
               planItem ''B'' ''2027-01-02'' ''09:30'' ''10:30'',
               planItem ''C'' ''2027-01-02'' ''08:30'' ''09:00'']"

definition aiBlock :: "string \<Rightarrow> int \<Rightarrow> int \<Rightarrow> int \<Rightarrow> TimeBlock" where
  "aiBlock t d s e =
     \<lparr>id' = ''ai-'', dayIndex = d, startMinutes = s, endMinutes = e,
      color = Some ''#111111'', title = t, description = [], location = None,
      destination = None, routeMode = Some ''simple'', preciseRouteCache = None\<rparr>"

definition oldPair :: "TimeBlock list Record" where
  "oldPair = [(0, [oldBlock 0, block ''old2'' 0 500 560 ''Old2''])]"

definition itemsAfternoon :: "AiPlanEvent list" where
  "itemsAfternoon = [planItem ''A'' ''2027-01-02'' ''14:00'' ''15:00'']"

definition itemsParis :: "AiPlanEvent list" where
  "itemsParis = [(planItem ''A'' ''2027-01-02'' ''09:00'' ''10:00'')\<lparr>ai_origin := Some ''Paris''\<rparr>]"

definition itemsEarly :: "AiPlanEvent list" where
  "itemsEarly = [planItem ''New'' ''2027-01-07'' ''09:00'' ''10:00'']"

definition readyPayload :: "AiPlanEvent list \<Rightarrow> AiPlanResponse" where
  "readyPayload items =
     \<lparr>response_ok = True, status = Ready, assistantMessage = Some ''Planned.'',
      plan_events = items, err_error = None, err_detail = None\<rparr>"

definition switchToCal2 :: "AppState \<Rightarrow> AppState" where
  "switchToCal2 = loadCalendar ''cal-2'' 5 (jan 20) [(0, [oldBlock 0])]"

definition itemFeb30 :: AiPlanEvent where
  "itemFeb30 = planItem ''X'' ''2027-02-30'' ''09:00'' ''10:00''"

definition itemYear50 :: AiPlanEvent where
  "itemYear50 = planItem ''Y'' ''0050-06-15'' ''09:00'' ''10:00''"

definition itemShort :: AiPlanEvent where
  "itemShort = planItem ''S'' ''2027-01-02'' ''09:00'' ''09:10''"

section \<open>Properties of the merge engine and the store\<close>

lemma map_of_Map_set: "map_of (Map_set k v m) = (map_of m)(k \<mapsto> v)"
  by (induction m) (auto simp: fun_eq_iff)

lemma map_of_Map_delete: "map_of (Map_delete k m) = (map_of m)(k := None)"
  by (induction m) (auto simp: Map_delete_def fun_eq_iff)

lemma set_Map_set: "set (Map_set k v m) \<subseteq> insert (k, v) (set m)"
  by (induction k v m rule: Map_set.induct) auto

lemma set_Map_delete: "set (Map_delete k m) \<subseteq> set m"
  by (auto simp: Map_delete_def)

lemma keys_Map_set:
  "map fst (Map_set k v m) = (if k \<in> fst ` set m then map fst m else map fst m @ [k])"
  by (induction k v m rule: Map_set.induct) (auto simp: image_iff)

lemma distinct_Map_set: "distinct (map fst m) \<Longrightarrow> distinct (map fst (Map_set k v m))"
  by (simp add: keys_Map_set)

lemma distinct_Map_delete: "distinct (map fst m) \<Longrightarrow> distinct (map fst (Map_delete k m))"
  by (simp add: Map_delete_def distinct_map_filter)

lemma foldl_nested: "foldl (\<lambda>r xs. foldl f r xs) a xss = foldl f a (concat xss)"
  by (induction xss arbitrary: a) auto

lemma flattenEvents_foldl: "flattenEvents evs = foldl flat_step [] (allEvents evs)"
  unfolding flattenEvents_def allEvents_def Object_values_def flat_step_def
  by (rule foldl_nested)

lemma flat_inv_Map_set: "flat_inv m \<Longrightarrow> id' e \<noteq> [] \<Longrightarrow> flat_inv (Map_set (id' e) e m)"
  using set_Map_set[of "id' e" e m] by (auto simp: flat_inv_def distinct_Map_set)

lemma flat_inv_Map_delete: "flat_inv m \<Longrightarrow> flat_inv (Map_delete k m)"
  using set_Map_delete[of k m] by (auto simp: flat_inv_def distinct_Map_delete)

lemma flat_inv_foldl: "flat_inv a \<Longrightarrow> flat_inv (foldl flat_step a es)"
  by (induction es arbitrary: a) (auto simp: flat_step_def flat_inv_Map_set)

lemma flat_inv_flattenEvents: "flat_inv (flattenEvents evs)"
  unfolding flattenEvents_foldl by (rule flat_inv_foldl) (simp add: flat_inv_def)

lemma map_of_foldl_flat_step:
  "map_of (foldl flat_step a es) i =
     (case filter (\<lambda>e. id' e = i \<and> id' e \<noteq> []) es of [] \<Rightarrow> map_of a i | xs \<Rightarrow> Some (last xs))"
proof (induction es rule: rev_induct)
  case Nil
  then show ?case by simp
next
  case (snoc e es)
  then show ?case
    by (auto simp: flat_step_def map_of_Map_set split: list.splits)
qed

lemma flattenEvents_lookup:
  "map_of (flattenEvents evs) i =
     (case filter (\<lambda>e. id' e = i \<and> id' e \<noteq> []) (allEvents evs) of [] \<Rightarrow> None | xs \<Rightarrow> Some (last xs))"
  by (simp add: flattenEvents_foldl map_of_foldl_flat_step split: list.splits)

lemma flattenEvents_absent:
  "\<forall>e \<in> set (allEvents evs). id' e \<noteq> x \<Longrightarrow> map_of (flattenEvents evs) x = None"
  by (simp add: flattenEvents_lookup filter_empty_conv[THEN iffD2] split: list.splits)

lemma flattenEvents_present:
  "e \<in> set (allEvents evs) \<Longrightarrow> id' e \<noteq> [] \<Longrightarrow> map_of (flattenEvents evs) (id' e) \<noteq> None"
  by (auto simp: flattenEvents_lookup filter_empty_conv split: list.splits)

lemma merge_incoming_lookup:
  "distinct (map fst inc) \<Longrightarrow>
   map_of (merge_incoming bm inc cm) i =
     (case map_of inc i of
        None \<Rightarrow> map_of cm i
      | Some e \<Rightarrow> if Some e \<noteq> map_of bm i then Some e else map_of cm i)"
  unfolding merge_incoming_def deepEqual_def Map_get_def
proof (induction inc arbitrary: cm)
  case Nil
  then show ?case by simp
next
  case (Cons p inc)
  obtain k e where p: "p = (k, e)" by (cases p)
  from Cons.prems have "map_of inc k = None"
    by (auto simp: p map_of_eq_None_iff)
  with Cons show ?case
    by (auto simp: p map_of_Map_set split: option.splits)
qed

lemma merge_deleted_foldl_lookup:
  "map_of (foldl (\<lambda>cm i. if \<not> Map_has inc i then Map_delete i cm else cm) cm ks) i =
     (if i \<in> set ks \<and> map_of inc i = None then None else map_of cm i)"
  by (induction ks arbitrary: cm) (auto simp: Map_has_def map_of_Map_delete)

lemma merge_deleted_lookup:
  "map_of (merge_deleted bm inc cm) i =
     (if i \<in> fst ` set bm \<and> map_of inc i = None then None else map_of cm i)"
  by (simp add: merge_deleted_def Map_keys_def merge_deleted_foldl_lookup)

lemma flat_inv_merge_incoming_aux:
  "\<forall>(k, e) \<in> set inc. k = id' e \<and> k \<noteq> [] \<Longrightarrow> flat_inv cm \<Longrightarrow>
   flat_inv (foldl (\<lambda>cm (i, incomingEvent).
              if \<not> deepEqual (Some incomingEvent) (Map_get bm i)
              then Map_set i incomingEvent cm else cm) cm inc)"
proof (induction inc arbitrary: cm)
  case Nil
  then show ?case by simp
next
  case (Cons p inc)
  obtain k e where p: "p = (k, e)" by (cases p)
  from Cons.prems have ke: "k = id' e" "id' e \<noteq> []" by (auto simp: p)
  have "flat_inv (Map_set k e cm)"
    using flat_inv_Map_set[OF Cons.prems(2) ke(2)] ke(1) by simp
  with Cons show ?case by (simp add: p)
qed

lemma flat_inv_merge_incoming:
  "flat_inv inc \<Longrightarrow> flat_inv cm \<Longrightarrow> flat_inv (merge_incoming bm inc cm)"
  unfolding merge_incoming_def
  by (rule flat_inv_merge_incoming_aux) (auto simp: flat_inv_def)

lemma flat_inv_merge_deleted: "flat_inv cm \<Longrightarrow> flat_inv (merge_deleted bm inc cm)"
proof -
  have "flat_inv cm \<Longrightarrow>
        flat_inv (foldl (\<lambda>cm i. if \<not> Map_has inc i then Map_delete i cm else cm) cm ks)" for ks
    by (induction ks arbitrary: cm) (auto simp: flat_inv_Map_delete)
  then show "flat_inv cm \<Longrightarrow> flat_inv (merge_deleted bm inc cm)"
    by (simp add: merge_deleted_def)
qed

lemma map_of_obj_set: "map_of (obj_set k v g) = (map_of g)(k \<mapsto> v)"
  by (induction k v g rule: obj_set.induct) (auto simp: fun_eq_iff)

lemma keys_obj_set: "fst ` set (obj_set k v g) = insert k (fst ` set g)"
  by (induction k v g rule: obj_set.induct) auto

lemma obj_wf_obj_set: "obj_wf g \<Longrightarrow> obj_wf (obj_set k v g)"
  unfolding obj_wf_def
proof (induction k v g rule: obj_set.induct)
  case (1 k v)
  then show ?case by simp
next
  case (2 k v a b ps)
  then show ?case
    using keys_obj_set[of k v ps] by (auto simp: image_iff)
qed

lemma map_of_push_grouped:
  "map_of (push_grouped g e) k =
     (if k = dayIndex e
      then Some ((case map_of g k of None \<Rightarrow> [] | Some b \<Rightarrow> b) @ [e])
      else map_of g k)"
  by (auto simp: push_grouped_def obj_get_def map_of_obj_set split: option.splits)

lemma obj_wf_push_grouped: "obj_wf g \<Longrightarrow> obj_wf (push_grouped g e)"
  by (auto simp: push_grouped_def obj_wf_obj_set split: option.splits)

lemma obj_wf_foldl_push: "obj_wf (foldl push_grouped [] es)"
proof (induction es rule: rev_induct)
  case Nil
  then show ?case by (simp add: obj_wf_def)
next
  case (snoc e es)
  then show ?case by (simp add: obj_wf_push_grouped)
qed

lemma map_of_foldl_push:
  "map_of (foldl push_grouped [] es) k =
     (case filter (\<lambda>e. dayIndex e = k) es of [] \<Rightarrow> None | xs \<Rightarrow> Some xs)"
  by (induction es rule: rev_induct) (auto simp: map_of_push_grouped split: list.splits)

lemma obj_wf_groupByDay: "obj_wf (groupByDay m)"
  using obj_wf_foldl_push[of "Map_values m"]
  by (simp add: groupByDay_def obj_wf_def case_prod_unfold comp_def)

lemma map_of_groupByDay:
  "map_of (groupByDay m) k =
     (case filter (\<lambda>e. dayIndex e = k) (map snd m) of
        [] \<Rightarrow> None
      | xs \<Rightarrow> Some (sort_key startMinutes xs))"
  by (simp add: groupByDay_def map_of_map map_of_foldl_push Map_values_def split: list.splits)

lemma obj_wf_distinct: "obj_wf g \<Longrightarrow> distinct (map fst g)"
  unfolding obj_wf_def by (simp add: strict_sorted_iff)

lemma groupByDay_member:
  assumes "(k, b) \<in> set (groupByDay m)" "e \<in> set b"
  shows "e \<in> snd ` set m \<and> dayIndex e = k"
proof -
  have "map_of (groupByDay m) k = Some b"
    using assms(1) obj_wf_distinct[OF obj_wf_groupByDay] by simp
  then have "b = sort_key startMinutes (filter (\<lambda>e. dayIndex e = k) (map snd m))"
    by (auto simp: map_of_groupByDay split: list.splits)
  with assms(2) show ?thesis by auto
qed

lemma groupByDay_contains:
  assumes "e \<in> snd ` set m"
  shows "\<exists>b. map_of (groupByDay m) (dayIndex e) = Some b \<and> e \<in> set b"
proof -
  let ?xs = "filter (\<lambda>x. dayIndex x = dayIndex e) (map snd m)"
  have mem: "e \<in> set ?xs" using assms by auto
  then have "?xs \<noteq> []" by (metis empty_iff empty_set)
  then have "map_of (groupByDay m) (dayIndex e) = Some (sort_key startMinutes ?xs)"
    by (simp add: map_of_groupByDay split: list.splits)
  moreover have "e \<in> set (sort_key startMinutes ?xs)" using mem by simp
  ultimately show ?thesis by blast
qed

lemma events_mergeState:
  "events (mergeState current base incoming) = groupByDay (merged_map current base incoming)"
  by (simp add: mergeState_def merged_map_def Let_def)

lemma flat_inv_merged_map: "flat_inv (merged_map current base incoming)"
  unfolding merged_map_def
  by (intro flat_inv_merge_deleted flat_inv_merge_incoming flat_inv_flattenEvents)

lemma merged_map_lookup:
  "map_of (merged_map current base incoming) i =
     (if lookupEvent base i \<noteq> None \<and> lookupEvent incoming i = None then None
      else case lookupEvent incoming i of
             None \<Rightarrow> lookupEvent current i
           | Some e \<Rightarrow> if Some e \<noteq> lookupEvent base i then Some e else lookupEvent current i)"
proof -
  have d: "distinct (map fst (flattenEvents (events incoming)))"
    using flat_inv_flattenEvents[of "events incoming"] by (simp add: flat_inv_def)
  have k: "(i \<in> fst ` set (flattenEvents (events base))) = (lookupEvent base i \<noteq> None)"
    by (simp add: lookupEvent_def Map_get_def map_of_eq_None_iff)
  show ?thesis
    unfolding merged_map_def merge_deleted_lookup merge_incoming_lookup[OF d] k
    by (simp add: lookupEvent_def Map_get_def split: option.splits)
qed

lemma merged_map_contains:
  assumes "map_of (merged_map current base incoming) i = Some e"
  shows "containsEvent (mergeState current base incoming) e"
proof -
  have "(i, e) \<in> set (merged_map current base incoming)"
    using assms by (rule map_of_SomeD)
  then have "e \<in> snd ` set (merged_map current base incoming)" by force
  from groupByDay_contains[OF this] show ?thesis
    by (auto simp: containsEvent_def events_mergeState obj_get_def)
qed

text \<open>
  C1 (non-interference). Documents are compared event by event, through the id-indexed
  view the merge engine itself takes (\<open>lookupEvent\<close>). If \<open>incoming\<close> differs
  from \<open>base\<close> only at the id of event \<open>a\<close>, which it adds or edits, and
  \<open>current\<close> differs from \<open>base\<close> only at the id of a distinct event \<open>b\<close>,
  which it edits, then the merged document holds \<open>incoming\<close>'s \<open>a\<close> and
  \<open>current\<close>'s \<open>b\<close>, each in the day bucket of its own \<open>dayIndex\<close>.
\<close>

theorem non_interference:
  assumes "lookupEvent incoming (id' a) = Some a"
      and "lookupEvent base (id' a) \<noteq> Some a"
      and "\<forall>i. i \<noteq> id' a \<longrightarrow> lookupEvent incoming i = lookupEvent base i"
      and "lookupEvent current (id' b) = Some b"
      and "lookupEvent base (id' b) \<noteq> Some b"
      and "\<forall>i. i \<noteq> id' b \<longrightarrow> lookupEvent current i = lookupEvent base i"
      and "id' a \<noteq> id' b"
  shows "containsEvent (mergeState current base incoming) a \<and>
         containsEvent (mergeState current base incoming) b"
proof -
  have ib: "lookupEvent incoming (id' b) = lookupEvent base (id' b)"
    using assms(3,7) by auto
  have "map_of (merged_map current base incoming) (id' a) = Some a"
    using assms(1,2) by (simp add: merged_map_lookup)
  moreover have "map_of (merged_map current base incoming) (id' b) = Some b"
    using assms(4) ib by (auto simp: merged_map_lookup split: option.splits)
  ultimately show ?thesis
    by (blast intro: merged_map_contains)
qed

text \<open>
  C2 (delete wins). If some event of \<open>base\<close> has id \<open>x\<close> and no event of
  \<open>incoming\<close> has it, then no event of the merged document has id \<open>x\<close>,
  whatever \<open>current\<close> holds under that id (an edited version included).
\<close>

theorem delete_wins:
  assumes "\<exists>e \<in> set (allEvents (events base)). id' e = x"
      and "\<forall>e \<in> set (allEvents (events incoming)). id' e \<noteq> x"
  shows "\<forall>e \<in> set (allEvents (events (mergeState current base incoming))). id' e \<noteq> x"
proof
  fix e
  assume e: "e \<in> set (allEvents (events (mergeState current base incoming)))"
  show "id' e \<noteq> x"
  proof
    assume x: "id' e = x"
    from e obtain k b where kb: "(k, b) \<in> set (groupByDay (merged_map current base incoming))"
        and eb: "e \<in> set b"
      by (auto simp: allEvents_def events_mergeState)
    from groupByDay_member[OF kb eb] obtain i where
      ie: "(i, e) \<in> set (merged_map current base incoming)" by auto
    have inv: "flat_inv (merged_map current base incoming)" by (rule flat_inv_merged_map)
    from inv ie have i: "i = x" "x \<noteq> []" using x by (auto simp: flat_inv_def)
    from inv ie have look: "map_of (merged_map current base incoming) x = Some e"
      using i by (simp add: flat_inv_def)
    from assms(1) i(2) have "lookupEvent base x \<noteq> None"
      using flattenEvents_present by (auto simp: lookupEvent_def Map_get_def)
    moreover from assms(2) have "lookupEvent incoming x = None"
      by (simp add: lookupEvent_def Map_get_def flattenEvents_absent)
    ultimately have "map_of (merged_map current base incoming) x = None"
      by (simp add: merged_map_lookup)
    with look show False by simp
  qed
qed

lemma Map_set_fresh: "k \<notin> fst ` set m \<Longrightarrow> Map_set k v m = m @ [(k, v)]"
  by (induction k v m rule: Map_set.induct) auto

lemma foldl_flat_step_fresh:
  "distinct (map id' es) \<Longrightarrow> \<forall>e \<in> set es. id' e \<noteq> [] \<Longrightarrow> fst ` set a \<inter> id' ` set es = {} \<Longrightarrow>
   foldl flat_step a es = a @ map (\<lambda>e. (id' e, e)) es"
proof (induction es arbitrary: a)
  case Nil
  then show ?case by simp
next
  case (Cons e es)
  have fresh: "id' e \<notin> fst ` set a" using Cons.prems(3) by auto
  have step: "flat_step a e = a @ [(id' e, e)]"
    using Cons.prems(2) fresh by (simp add: flat_step_def Map_set_fresh)
  have "fst ` set (a @ [(id' e, e)]) \<inter> id' ` set es = {}"
    using Cons.prems(1,3) by auto
  with Cons show ?case by (simp add: step)
qed

lemma values_flattenEvents_canonical:
  "canonicalEvents evs \<Longrightarrow> map snd (flattenEvents evs) = allEvents evs"
proof -
  assume c: "canonicalEvents evs"
  have d: "distinct (map id' (allEvents evs))" using c by (simp add: canonicalEvents_def)
  have n: "\<forall>e \<in> set (allEvents evs). id' e \<noteq> []"
    using c by (auto simp: canonicalEvents_def allEvents_def)
  have "foldl flat_step [] (allEvents evs) = [] @ map (\<lambda>e. (id' e, e)) (allEvents evs)"
    by (rule foldl_flat_step_fresh[OF d n]) simp
  then show ?thesis by (simp add: flattenEvents_foldl comp_def)
qed

lemma filter_day_allEvents:
  "distinct (map fst evs) \<Longrightarrow> \<forall>(k, b) \<in> set evs. \<forall>e \<in> set b. dayIndex e = k \<Longrightarrow>
   filter (\<lambda>e. dayIndex e = k) (allEvents evs) = (case map_of evs k of None \<Rightarrow> [] | Some b \<Rightarrow> b)"
proof (induction evs)
  case Nil
  then show ?case by (simp add: allEvents_def)
next
  case (Cons p evs)
  obtain k' b' where p: "p = (k', b')" by (cases p)
  have ih: "filter (\<lambda>e. dayIndex e = k) (allEvents evs) =
            (case map_of evs k of None \<Rightarrow> [] | Some b \<Rightarrow> b)"
    using Cons by auto
  have b': "\<forall>e \<in> set b'. dayIndex e = k'" using Cons.prems(2) by (auto simp: p)
  show ?case
  proof (cases "k = k'")
    case True
    have "map_of evs k = None" using Cons.prems(1) True by (auto simp: p map_of_eq_None_iff)
    with ih b' True show ?thesis by (simp add: p allEvents_def)
  next
    case False
    with b' have "filter (\<lambda>e. dayIndex e = k) b' = []" by (auto simp: filter_empty_conv)
    with ih False show ?thesis by (simp add: p allEvents_def)
  qed
qed

lemma obj_ext:
  assumes "obj_wf xs" "obj_wf ys" "map_of xs = map_of ys"
  shows "xs = ys"
proof -
  have dx: "distinct (map fst xs)" and dy: "distinct (map fst ys)"
    using assms(1,2) by (simp_all add: obj_wf_distinct)
  have "set (map fst xs) = set (map fst ys)"
    using assms(3) by (metis dom_map_of_conv_image_fst set_map)
  then have keys: "map fst xs = map fst ys"
    using assms(1,2) unfolding obj_wf_def strict_sorted_iff
    by (intro sorted_distinct_set_unique) auto
  then have len: "length xs = length ys" by (metis length_map)
  show ?thesis
  proof (rule nth_equalityI[OF len])
    fix i assume i: "i < length xs"
    have fx: "fst (xs ! i) = fst (ys ! i)"
      using keys i len by (metis nth_map)
    have "map_of xs (fst (xs ! i)) = Some (snd (xs ! i))"
      using dx i by (simp add: map_of_eq_Some_iff)
    moreover have "map_of ys (fst (ys ! i)) = Some (snd (ys ! i))"
      using dy i len by (simp add: map_of_eq_Some_iff)
    ultimately have "snd (xs ! i) = snd (ys ! i)"
      using assms(3) fx by simp
    with fx show "xs ! i = ys ! i" by (simp add: prod_eq_iff)
  qed
qed

lemma groupByDay_flattenEvents_canonical:
  assumes "canonicalEvents evs"
  shows "groupByDay (flattenEvents evs) = evs"
proof (rule obj_ext)
  show "obj_wf (groupByDay (flattenEvents evs))" by (rule obj_wf_groupByDay)
  show "obj_wf evs" using assms by (simp add: canonicalEvents_def)
  show "map_of (groupByDay (flattenEvents evs)) = map_of evs"
  proof
    fix k
    have d: "distinct (map fst evs)" using assms by (simp add: canonicalEvents_def obj_wf_distinct)
    have di: "\<forall>(k, b) \<in> set evs. \<forall>e \<in> set b. dayIndex e = k"
      using assms by (auto simp: canonicalEvents_def)
    have f: "filter (\<lambda>e. dayIndex e = k) (map snd (flattenEvents evs)) =
             (case map_of evs k of None \<Rightarrow> [] | Some b \<Rightarrow> b)"
      by (simp add: values_flattenEvents_canonical[OF assms] filter_day_allEvents[OF d di])
    show "map_of (groupByDay (flattenEvents evs)) k = map_of evs k"
    proof (cases "map_of evs k")
      case None
      then show ?thesis by (simp add: map_of_groupByDay f)
    next
      case (Some b)
      then have mem: "(k, b) \<in> set evs" by (rule map_of_SomeD)
      with assms have "b \<noteq> []" "sorted (map startMinutes b)"
        by (auto simp: canonicalEvents_def)
      then have "sort_key startMinutes b = b" "filter (\<lambda>e. dayIndex e = k) (map snd (flattenEvents evs)) = b"
        using Some f by (simp_all add: sort_key_id_if_sorted)
      with Some \<open>b \<noteq> []\<close> show ?thesis
        by (cases b) (simp_all add: map_of_groupByDay)
    qed
  qed
qed

lemma merge_incoming_same:
  assumes "distinct (map fst bm)"
  shows "merge_incoming bm bm cm = cm"
proof -
  have "\<forall>(i, e) \<in> set inc. map_of bm i = Some e \<Longrightarrow>
        foldl (\<lambda>cm (i, incomingEvent).
              if \<not> deepEqual (Some incomingEvent) (Map_get bm i)
              then Map_set i incomingEvent cm else cm) cm inc = cm" for inc
    by (induction inc arbitrary: cm) (auto simp: deepEqual_def Map_get_def)
  moreover have "\<forall>(i, e) \<in> set bm. map_of bm i = Some e"
    using assms by auto
  ultimately show ?thesis by (simp add: merge_incoming_def)
qed

lemma merge_deleted_same: "merge_deleted bm bm cm = cm"
proof -
  have "set ks \<subseteq> fst ` set bm \<Longrightarrow>
        foldl (\<lambda>cm i. if \<not> Map_has bm i then Map_delete i cm else cm) cm ks = cm" for ks
    by (induction ks arbitrary: cm) (auto simp: Map_has_def map_of_eq_None_iff)
  then show ?thesis by (simp add: merge_deleted_def Map_keys_def)
qed

lemma merged_map_same: "merged_map current base base = flattenEvents (events current)"
  using flat_inv_flattenEvents[of "events base"]
  by (simp add: merged_map_def merge_deleted_same merge_incoming_same flat_inv_def)

lemma mergeState_same_scalars:
  "mergeState current base base = current\<lparr>events := groupByDay (flattenEvents (events current))\<rparr>"
  by (simp add: mergeState_def Let_def deepEqual_def merged_map_same[unfolded merged_map_def])

text \<open>
  C3 (merge idempotence, as amended). Merging with \<open>incoming = base\<close> keeps every
  scalar field of \<open>current\<close>, and its events become \<open>current\<close>'s events
  regrouped by each event's own \<open>dayIndex\<close> and sorted by \<open>startMinutes\<close>. When
  \<open>current\<close>'s events are already in that form (\<open>canonicalEvents\<close>: no empty
  bucket, every event under the key of its \<open>dayIndex\<close>, ids non-empty and unique,
  buckets sorted by start), the merge returns \<open>current\<close> itself, and a save with a
  stale base revision whose document equals its base leaves the store and the revision
  unchanged.
\<close>

theorem merge_idempotence_canonical:
  "numDays (mergeState current base base) = numDays current \<and>
   startDate (mergeState current base base) = startDate current \<and>
   startHour (mergeState current base base) = startHour current \<and>
   endHour (mergeState current base base) = endHour current \<and>
   viewMode (mergeState current base base) = viewMode current \<and>
   events (mergeState current base base) = groupByDay (flattenEvents (events current)) \<and>
   (canonicalEvents (events current) \<longrightarrow> mergeState current base base = current) \<and>
   (canonicalEvents (events (cal_state cal)) \<and> calendars cid = Some cal \<and> r \<noteq> revision cal \<longrightarrow>
      save_calendar calendars cid \<lparr>body_state = b, baseState = Some b, baseRevision = Some r\<rparr> now
        = (calendars, Inr \<lparr>res_state = cal_state cal, res_revision = revision cal\<rparr>))"
proof -
  have fp: "canonicalEvents (events c) \<Longrightarrow> mergeState c d d = c" for c d
    by (simp add: mergeState_same_scalars groupByDay_flattenEvents_canonical)
  have "canonicalEvents (events (cal_state cal)) \<Longrightarrow> calendars cid = Some cal \<Longrightarrow> r \<noteq> revision cal \<Longrightarrow>
      save_calendar calendars cid \<lparr>body_state = b, baseState = Some b, baseRevision = Some r\<rparr> now
        = (calendars, Inr \<lparr>res_state = cal_state cal, res_revision = revision cal\<rparr>)"
    by (simp add: save_calendar_def save_nextState_def Let_def deepEqual_def fp)
  then show ?thesis
    by (auto simp: mergeState_same_scalars groupByDay_flattenEvents_canonical)
qed

text \<open>
  C4 (revision law). A created calendar starts at revision 0. A save on an existing id
  is accepted and answers with the resulting document: when that document equals the
  stored one the revision and the store are unchanged, otherwise the revision grows by
  exactly 1 and the resulting document is stored.
\<close>

theorem revision_law:
  "map_option revision (create_calendar calendars0 newId name0 initial now0 newId) = Some 0 \<and>
   (calendars cid = Some cal \<longrightarrow>
      (\<exists>calendars' res.
         save_calendar calendars cid body now = (calendars', Inr res) \<and>
         res_state res = save_nextState cal body \<and>
         (save_nextState cal body = cal_state cal \<longrightarrow>
            res_revision res = revision cal \<and> calendars' = calendars) \<and>
         (save_nextState cal body \<noteq> cal_state cal \<longrightarrow>
            res_revision res = revision cal + 1 \<and>
            map_option revision (calendars' cid) = Some (revision cal + 1) \<and>
            map_option cal_state (calendars' cid) = Some (save_nextState cal body))))"
  by (simp add: create_calendar_def save_calendar_def Let_def deepEqual_def)

theorem non_interference_witness:
  "containsEvent (mergeState (doc [(0, [evB'])]) (doc [(0, [evB])]) (doc [(0, [evB]), (1, [evA])])) evA \<and>
   containsEvent (mergeState (doc [(0, [evB'])]) (doc [(0, [evB])]) (doc [(0, [evB]), (1, [evA])])) evB' \<and>
   lookupEvent (doc [(0, [evB]), (1, [evA])]) (id' evA) = Some evA \<and>
   lookupEvent (doc [(0, [evB])]) (id' evA) = None \<and>
   lookupEvent (doc [(0, [evB'])]) (id' evB') = Some evB' \<and>
   lookupEvent (doc [(0, [evB])]) (id' evB') = Some evB"
  using non_interference[of "doc [(0, [evB]), (1, [evA])]" evA "doc [(0, [evB])]"
      "doc [(0, [evB'])]" evB']
  by (simp add: lookupEvent_def Map_get_def flattenEvents_def Object_values_def doc_def
      evA_def evB_def evB'_def block_def)

theorem delete_wins_witness:
  "(\<exists>e \<in> set (allEvents (events (doc [(0, [evB]), (2, [evX])]))). id' e = ''X'') \<and>
   \<not> (\<exists>e \<in> set (allEvents (events (doc [(0, [evB])]))). id' e = ''X'') \<and>
   (\<exists>e \<in> set (allEvents (events (doc [(0, [evB]), (2, [evX'])]))). id' e = ''X'') \<and>
   \<not> (\<exists>e \<in> set (allEvents (events
        (mergeState (doc [(0, [evB]), (2, [evX'])]) (doc [(0, [evB]), (2, [evX])]) (doc [(0, [evB])])))).
        id' e = ''X'')"
  using delete_wins[of "doc [(0, [evB]), (2, [evX])]" "''X''" "doc [(0, [evB])]"
      "doc [(0, [evB]), (2, [evX'])]"]
  by (simp add: allEvents_def doc_def evB_def evX_def evX'_def block_def)

text \<open>
  The claim as stated fails on a stored document with an empty day bucket (what deleting
  the last event of a day leaves behind): the merge drops the bucket, so the result differs
  from \<open>current\<close> and the save raises the revision from 4 to 5.
\<close>

theorem merge_idempotence_counterexample:
  "events (mergeState (doc [(0, [])]) (doc []) (doc [])) \<noteq> events (doc [(0, [])]) \<and>
   snd (save_calendar [''c'' \<mapsto> entry (doc [(0, [])]) 4] ''c''
          \<lparr>body_state = doc [], baseState = Some (doc []), baseRevision = Some 3\<rparr> ''t1'')
     = Inr \<lparr>res_state = doc [], res_revision = 5\<rparr>"
  by (simp add: mergeState_def save_calendar_def save_nextState_def normalizeState_def
      flattenEvents_def groupByDay_def merge_incoming_def merge_deleted_def Object_values_def
      Map_values_def Map_keys_def deepEqual_def doc_def entry_def Let_def)

theorem merge_idempotence_canonical_witness:
  "canonicalEvents (events (doc [(0, [evB]), (1, [evA])])) \<and>
   mergeState (doc [(0, [evB]), (1, [evA])]) (doc [(2, [evX])]) (doc [(2, [evX])])
     = doc [(0, [evB]), (1, [evA])] \<and>
   save_calendar [''c'' \<mapsto> entry (doc [(0, [evB]), (1, [evA])]) 4] ''c''
      \<lparr>body_state = doc [(2, [evX])], baseState = Some (doc [(2, [evX])]), baseRevision = Some 3\<rparr> ''t1''
     = ([''c'' \<mapsto> entry (doc [(0, [evB]), (1, [evA])]) 4],
        Inr \<lparr>res_state = doc [(0, [evB]), (1, [evA])], res_revision = 4\<rparr>)"
proof -
  have c: "canonicalEvents (events (doc [(0, [evB]), (1, [evA])]))"
    by (simp add: canonicalEvents_def obj_wf_def allEvents_def doc_def evA_def evB_def block_def)
  show ?thesis
    using c merge_idempotence_canonical[of "doc [(0, [evB]), (1, [evA])]" "doc [(2, [evX])]"
        "entry (doc [(0, [evB]), (1, [evA])]) 4" "[''c'' \<mapsto> entry (doc [(0, [evB]), (1, [evA])]) 4]"
        "''c''" 3 "doc [(2, [evX])]" "''t1''"]
    by (simp add: entry_def)
qed

theorem revision_law_witness:
  "create_calendar Map.empty ''c'' ''Trip'' (doc []) ''t0'' ''c'' = Some (entry (doc []) 0) \<and>
   save_calendar [''c'' \<mapsto> entry (doc []) 0] ''c''
      \<lparr>body_state = doc [(0, [evB])], baseState = Some (doc []), baseRevision = Some 0\<rparr> ''t1''
     = ([''c'' \<mapsto> (entry (doc [(0, [evB])]) 1)\<lparr>updatedAt := ''t1''\<rparr>],
        Inr \<lparr>res_state = doc [(0, [evB])], res_revision = 1\<rparr>) \<and>
   snd (save_calendar [''c'' \<mapsto> entry (doc [(0, [evB])]) 1] ''c''
      \<lparr>body_state = doc [(0, [evB])], baseState = Some (doc [(0, [evB])]), baseRevision = Some 1\<rparr> ''t2'')
     = Inr \<lparr>res_state = doc [(0, [evB])], res_revision = 1\<rparr>"
  using revision_law[of Map.empty "''c''" "''Trip''" "doc []" "''t0''"
      "[''c'' \<mapsto> entry (doc []) 0]" "''c''" "entry (doc []) 0"
      "\<lparr>body_state = doc [(0, [evB])], baseState = Some (doc []), baseRevision = Some 0\<rparr>" "''t1''"]
  by (simp add: create_calendar_def save_calendar_def save_nextState_def normalizeState_def
      deepEqual_def doc_def entry_def evB_def block_def Let_def)

section \<open>Properties of dates and parsers\<close>

lemma daysInMonth_bounds: "28 \<le> daysInMonth y m" "daysInMonth y m \<le> 31"
  by (auto simp: daysInMonth_def)

lemma prevMonth_range: "0 \<le> m \<Longrightarrow> m \<le> 11 \<Longrightarrow> 0 \<le> snd (prevMonth y m) \<and> snd (prevMonth y m) \<le> 11"
  by (auto simp: prevMonth_def)

lemma nextMonth_range: "0 \<le> m \<Longrightarrow> m \<le> 11 \<Longrightarrow> 0 \<le> snd (nextMonth y m) \<and> snd (nextMonth y m) \<le> 11"
  by (auto simp: nextMonth_def)

lemma rollDay_id: "1 \<le> d \<Longrightarrow> d \<le> daysInMonth y m \<Longrightarrow> rollDay y m d = (y, m, d)"
  by (simp add: rollDay.simps)

lemma rollDay_normal:
  "0 \<le> m \<Longrightarrow> m \<le> 11 \<Longrightarrow> rollDay y m d = (y', m', d') \<Longrightarrow>
   0 \<le> m' \<and> m' \<le> 11 \<and> 1 \<le> d' \<and> d' \<le> daysInMonth y' m'"
proof (induction y m d rule: rollDay.induct)
  case (1 y m d)
  show ?case
  proof (cases "d < 1")
    case True
    with "1.prems"(3) have "rollDay (fst (prevMonth y m)) (snd (prevMonth y m))
        (d + daysInMonth (fst (prevMonth y m)) (snd (prevMonth y m))) = (y', m', d')"
      by (subst (asm) rollDay.simps) simp
    with "1.IH"(1)[OF True] prevMonth_range[OF "1.prems"(1,2)] show ?thesis by blast
  next
    case False
    show ?thesis
    proof (cases "daysInMonth y m < d")
      case True
      with False "1.prems"(3) have "rollDay (fst (nextMonth y m)) (snd (nextMonth y m))
          (d - daysInMonth y m) = (y', m', d')"
        by (subst (asm) rollDay.simps) simp
      with "1.IH"(2)[OF False True] nextMonth_range[OF "1.prems"(1,2)] show ?thesis by blast
    next
      case nb: False
      with False "1.prems" show ?thesis
        by (subst (asm) rollDay.simps) auto
    qed
  qed
qed

lemma rollDay_forward:
  "1 \<le> d \<Longrightarrow> rollDay y m d = (y', m', d') \<Longrightarrow> d' \<le> d \<and> (d' = d \<longrightarrow> y' = y \<and> m' = m)"
proof (induction y m d rule: rollDay.induct)
  case (1 y m d)
  show ?case
  proof (cases "daysInMonth y m < d")
    case True
    have nl: "\<not> d < 1" using "1.prems"(1) by simp
    have pos: "1 \<le> d - daysInMonth y m" using True by simp
    from True nl "1.prems"(2) have "rollDay (fst (nextMonth y m)) (snd (nextMonth y m))
          (d - daysInMonth y m) = (y', m', d')"
      by (subst (asm) rollDay.simps) simp
    from "1.IH"(2)[OF nl True pos this] have "d' \<le> d - daysInMonth y m" by simp
    with daysInMonth_bounds(1)[of y m] show ?thesis by simp
  next
    case False
    with "1.prems" show ?thesis
      by (subst (asm) rollDay.simps) auto
  qed
qed

lemma div_add_mult:
  fixes r n q :: int
  assumes "0 \<le> r" "r < n"
  shows "(r + n * q) div n = q"
proof -
  have "n \<noteq> 0" using assms by simp
  then have "(r + n * q) div n = q + r div n" by (rule div_mult_self2)
  also have "r div n = 0" using assms by (rule div_pos_pos_trivial)
  finally show ?thesis by simp
qed

lemma div_step:
  fixes y n :: int
  assumes "0 < n"
  shows "y div n = (y - 1) div n + (if y mod n = 0 then 1 else 0)"
proof (cases "y mod n = 0")
  case True
  have "n dvd y" using True by (rule dvd_eq_mod_eq_0[THEN iffD2])
  then have y: "y = n * (y div n)" by (rule dvd_mult_div_cancel[symmetric])
  have "n * (y div n) - 1 = (n - 1) + n * (y div n - 1)"
    by (simp add: algebra_simps)
  with y have "y - 1 = (n - 1) + n * (y div n - 1)" by simp
  then have "(y - 1) div n = (((n - 1) + n * (y div n - 1)) div n)" by (rule arg_cong)
  also have "\<dots> = y div n - 1" using assms by (intro div_add_mult) simp_all
  finally show ?thesis using True by simp
next
  case False
  have "0 \<le> y mod n" using assms by (rule pos_mod_sign)
  with False have r1: "0 < y mod n" by linarith
  have r2: "y mod n < n" using assms by (rule pos_mod_bound)
  note r = r1 r2
  have "y - 1 = (y mod n - 1) + n * (y div n)" by (simp add: algebra_simps)
  then have "(y - 1) div n = ((y mod n - 1) + n * (y div n)) div n" by (rule arg_cong)
  also have "\<dots> = y div n" using r by (intro div_add_mult) simp_all
  finally show ?thesis using False by simp
qed

lemma mod_0_trans:
  fixes a b y :: int
  assumes "a dvd b" "y mod b = 0"
  shows "y mod a = 0"
proof -
  have "b dvd y" using assms(2) by (rule dvd_eq_mod_eq_0[THEN iffD2])
  with assms(1) have "a dvd y" by (rule dvd_trans)
  then show ?thesis by (rule dvd_eq_mod_eq_0[THEN iffD1])
qed

lemma dvd_100_400: "(100::int) dvd 400"
  by (rule dvdI[of _ _ 4]) simp

lemma dvd_4_100: "(4::int) dvd 100"
  by (rule dvdI[of _ _ 25]) simp

lemma mod_400_100: "(y::int) mod 400 = 0 \<Longrightarrow> y mod 100 = 0"
  by (rule mod_0_trans[OF dvd_100_400])

lemma mod_100_4: "(y::int) mod 100 = 0 \<Longrightarrow> y mod 4 = 0"
  by (rule mod_0_trans[OF dvd_4_100])

lemma leap_count:
  fixes p4 p100 p400 :: bool
  assumes "p400 \<longrightarrow> p100" "p100 \<longrightarrow> p4"
  shows "(if p4 then 1 else 0) - (if p100 then 1 else 0) + (if p400 then 1 else (0::int))
         = (if p4 \<and> (\<not> p100 \<or> p400) then 1 else 0)"
  using assms by (cases p4; cases p100; cases p400; simp)

lemma year_step_linear:
  fixes y a b c y4 y100 y400 d4 d100 d400 l :: int
  assumes "y4 = a + d4" "y100 = b + d100" "y400 = c + d400" "d4 - d100 + d400 = l"
  shows "365 * (y + 1) + y4 - y100 + y400 = 365 * y + a - b + c + (365 + l)"
  using assms by simp

lemma daysBeforeYear_Suc:
  "daysBeforeYear (y + 1) = daysBeforeYear y + (if isLeapYear y then 366 else 365)"
proof -
  define d4 :: int where "d4 = (if y mod 4 = 0 then 1 else 0)"
  define d100 :: int where "d100 = (if y mod 100 = 0 then 1 else 0)"
  define d400 :: int where "d400 = (if y mod 400 = 0 then 1 else 0)"
  define l :: int where "l = (if isLeapYear y then 1 else 0)"
  have a: "y div 4 = (y - 1) div 4 + d4" unfolding d4_def by (rule div_step) simp
  have b: "y div 100 = (y - 1) div 100 + d100" unfolding d100_def by (rule div_step) simp
  have c: "y div 400 = (y - 1) div 400 + d400" unfolding d400_def by (rule div_step) simp
  have k: "d4 - d100 + d400 = l"
    unfolding d4_def d100_def d400_def l_def isLeapYear_def
  proof (rule leap_count)
    show "y mod 400 = 0 \<longrightarrow> y mod 100 = 0" by (rule impI) (rule mod_400_100)
    show "y mod 100 = 0 \<longrightarrow> y mod 4 = 0" by (rule impI) (rule mod_100_4)
  qed
  have n: "daysBeforeYear (y + 1) = 365 * (y + 1) + y div 4 - y div 100 + y div 400"
    by (simp only: daysBeforeYear_def add_diff_cancel_right')
  have o: "daysBeforeYear y = 365 * y + (y - 1) div 4 - (y - 1) div 100 + (y - 1) div 400"
    by (simp only: daysBeforeYear_def)
  have p: "(if isLeapYear y then 366 else 365) = 365 + l"
    by (simp add: l_def)
  show ?thesis unfolding n o p using a b c k by (rule year_step_linear)
qed

lemma daysBeforeMonth_next:
  assumes "0 \<le> m" "m \<le> 10"
  shows "daysBeforeMonth y (m + 1) = daysBeforeMonth y m + daysInMonth y m"
proof -
  from assms have "m = 0 \<or> m = 1 \<or> m = 2 \<or> m = 3 \<or> m = 4 \<or> m = 5 \<or> m = 6 \<or> m = 7 \<or> m = 8 \<or> m = 9 \<or> m = 10"
    by arith
  then show ?thesis
    by (elim disjE) (simp_all add: daysBeforeMonth_def daysInMonth_def)
qed

lemma daysBeforeMonth_0: "daysBeforeMonth y 0 = 0"
  by (simp add: daysBeforeMonth_def)

lemma daysBeforeMonth_11: "daysBeforeMonth y 11 + daysInMonth y 11 = (if isLeapYear y then 366 else 365)"
  by (simp add: daysBeforeMonth_def daysInMonth_def)

lemma rawDay_next:
  "0 \<le> m \<Longrightarrow> m \<le> 11 \<Longrightarrow>
   rawDay (fst (nextMonth y m)) (snd (nextMonth y m)) (d - daysInMonth y m) = rawDay y m d"
  using daysBeforeMonth_next[of m y] daysBeforeMonth_11[of y] daysBeforeYear_Suc[of y]
  by (auto simp: rawDay_def nextMonth_def daysBeforeMonth_0)

lemma rawDay_prev:
  "0 \<le> m \<Longrightarrow> m \<le> 11 \<Longrightarrow>
   rawDay (fst (prevMonth y m)) (snd (prevMonth y m))
      (d + daysInMonth (fst (prevMonth y m)) (snd (prevMonth y m))) = rawDay y m d"
  using daysBeforeMonth_next[of "m - 1" y] daysBeforeMonth_11[of "y - 1"] daysBeforeYear_Suc[of "y - 1"]
  by (auto simp: rawDay_def prevMonth_def daysBeforeMonth_0)

lemma rollDay_rawDay:
  "0 \<le> m \<Longrightarrow> m \<le> 11 \<Longrightarrow> rollDay y m d = (y', m', d') \<Longrightarrow> rawDay y' m' d' = rawDay y m d"
proof (induction y m d rule: rollDay.induct)
  case (1 y m d)
  show ?case
  proof (cases "d < 1")
    case True
    with "1.prems"(3) have "rollDay (fst (prevMonth y m)) (snd (prevMonth y m))
        (d + daysInMonth (fst (prevMonth y m)) (snd (prevMonth y m))) = (y', m', d')"
      by (subst (asm) rollDay.simps) simp
    with "1.IH"(1)[OF True] prevMonth_range[OF "1.prems"(1,2)] rawDay_prev[OF "1.prems"(1,2)]
    show ?thesis by simp
  next
    case False
    show ?thesis
    proof (cases "daysInMonth y m < d")
      case True
      with False "1.prems"(3) have "rollDay (fst (nextMonth y m)) (snd (nextMonth y m))
          (d - daysInMonth y m) = (y', m', d')"
        by (subst (asm) rollDay.simps) simp
      with "1.IH"(2)[OF False True] nextMonth_range[OF "1.prems"(1,2)] rawDay_next[OF "1.prems"(1,2)]
      show ?thesis by simp
    next
      case nb: False
      with False "1.prems" show ?thesis
        by (subst (asm) rollDay.simps) auto
    qed
  qed
qed

lemma of_char_nat_simps:
  "(of_char CHR ''0'' :: nat) = 48" "(of_char CHR ''1'' :: nat) = 49" "(of_char CHR ''2'' :: nat) = 50"
  "(of_char CHR ''3'' :: nat) = 51" "(of_char CHR ''5'' :: nat) = 53" "(of_char CHR ''9'' :: nat) = 57"
  by simp_all

lemma char_is_2: "(c = CHR ''2'') = ((of_char c :: nat) = 50)"
proof -
  have e: "(of_char CHR ''2'' :: nat) = 50" by simp
  show ?thesis unfolding e[symmetric] by (rule of_char_eq_iff[symmetric])
qed

lemma Number2: "Number [a, b] = 10 * digitValue a + digitValue b"
  by (simp add: Number_def)

lemma hour_class:
  fixes a b :: nat
  shows "((48 \<le> a \<and> a \<le> 49 \<and> 48 \<le> b \<and> b \<le> 57) \<or> (a = 50 \<and> 48 \<le> b \<and> b \<le> 51)) =
         (48 \<le> a \<and> a \<le> 57 \<and> 48 \<le> b \<and> b \<le> 57 \<and> 10 * (int a - 48) + (int b - 48) \<le> 23)"
  by arith

lemma minute_class:
  fixes a b :: nat
  shows "(48 \<le> a \<and> a \<le> 53 \<and> 48 \<le> b \<and> b \<le> 57) =
         (48 \<le> a \<and> a \<le> 57 \<and> 48 \<le> b \<and> b \<le> 57 \<and> 10 * (int a - 48) + (int b - 48) \<le> 59)"
  by arith

lemma matchTime_iff: "(matchTime s \<noteq> None) = isTimeText s"
proof (cases s rule: matchTime.cases)
  case (1 h1 h2 c m1 m2)
  show ?thesis
    unfolding 1 isTimeText_def
    using hour_class[of "of_char h1" "of_char h2"] minute_class[of "of_char m1" "of_char m2"]
    by (simp add: isDigit_def charIn_def Number2 digitValue_def char_is_2 of_char_nat_simps
        del: of_char_eq_iff)
qed (simp_all add: isTimeText_def)

lemma matchTime_value: "matchTime s = Some (hh, mm) \<Longrightarrow> hh = take 2 s \<and> mm = drop 3 s"
  by (cases s rule: matchTime.cases) (auto split: if_splits)

lemma matchIsoDate_iff: "(matchIsoDate s \<noteq> None) = isDateText s"
  by (cases s rule: matchIsoDate.cases) (simp_all add: isDateText_def)

lemma matchIsoDate_value:
  "matchIsoDate s = Some (ys, ms, ds) \<Longrightarrow> ys = take 4 s \<and> ms = take 2 (drop 5 s) \<and> ds = drop 8 s"
  by (cases s rule: matchIsoDate.cases) (auto split: if_splits)

lemma digitValue_range: "isDigit c \<Longrightarrow> 0 \<le> digitValue c \<and> digitValue c \<le> 9"
  by (auto simp: isDigit_def charIn_def digitValue_def)

lemma isTimeText_range:
  assumes "isTimeText s"
  shows "0 \<le> Number (take 2 s) * 60 + Number (drop 3 s) \<and>
         Number (take 2 s) * 60 + Number (drop 3 s) \<le> 1439"
proof -
  from assms obtain h1 h2 c m1 m2 where s: "s = [h1, h2, c, m1, m2]"
    by (cases s rule: matchTime.cases) (auto simp: isTimeText_def)
  from assms have d: "isDigit h1" "isDigit h2" "isDigit m1" "isDigit m2"
    and le: "Number [h1, h2] \<le> 23" "Number [m1, m2] \<le> 59"
    by (simp_all add: s isTimeText_def)
  show ?thesis
    using d[THEN digitValue_range] le by (simp add: s Number2)
qed

lemma parseTimeToMinutes_iff: "(parseTimeToMinutes v \<noteq> None) = isTimeText (trim v)"
  using matchTime_iff[of "trim v"]
  by (auto simp: parseTimeToMinutes_def split: option.splits)

lemma parseTimeToMinutes_range:
  assumes "parseTimeToMinutes v = Some n"
  shows "0 \<le> n \<and> n \<le> 1439"
proof -
  from assms obtain hh mm where m: "matchTime (trim v) = Some (hh, mm)" and n: "n = Number hh * 60 + Number mm"
    by (auto simp: parseTimeToMinutes_def split: option.splits)
  have "isTimeText (trim v)" using m matchTime_iff[of "trim v"] by simp
  from isTimeText_range[OF this] matchTime_value[OF m] n show ?thesis by simp
qed

lemma new_Date_roundtrip:
  "(getFullYear (new_Date y mi d) = y \<and> getMonth (new_Date y mi d) = mi \<and> getDate (new_Date y mi d) = d)
   = (\<not> (0 \<le> y \<and> y \<le> 99) \<and> 0 \<le> mi \<and> mi \<le> 11 \<and> 1 \<le> d \<and> d \<le> daysInMonth y mi)"
proof
  assume r: "\<not> (0 \<le> y \<and> y \<le> 99) \<and> 0 \<le> mi \<and> mi \<le> 11 \<and> 1 \<le> d \<and> d \<le> daysInMonth y mi"
  then have dm: "mi div 12 = 0" "mi mod 12 = mi" by simp_all
  from r have y0: "(if 0 \<le> y \<and> y \<le> 99 then 1900 + y else y) = y" by auto
  from r have "rollDay y mi d = (y, mi, d)" by (simp add: rollDay_id)
  then have "new_Date y mi d = \<lparr>getFullYear = y, getMonth = mi, getDate = d, msOfDay = 0\<rparr>"
    unfolding new_Date_def y0 makeDate_def dm by simp
  then show "getFullYear (new_Date y mi d) = y \<and> getMonth (new_Date y mi d) = mi \<and> getDate (new_Date y mi d) = d"
    by simp
next
  assume l: "getFullYear (new_Date y mi d) = y \<and> getMonth (new_Date y mi d) = mi \<and> getDate (new_Date y mi d) = d"
  define y0 where "y0 = (if 0 \<le> y \<and> y \<le> 99 then 1900 + y else y) + mi div 12"
  obtain Y M D where roll: "rollDay y0 (mi mod 12) d = (Y, M, D)" by (cases "rollDay y0 (mi mod 12) d")
  from l have eq: "Y = y" "M = mi" "D = d"
    by (simp_all add: new_Date_def makeDate_def roll[unfolded y0_def])
  have m12: "0 \<le> mi mod 12" "mi mod 12 \<le> 11" by simp_all
  from rollDay_normal[OF m12 roll] eq have n: "0 \<le> mi" "mi \<le> 11" "1 \<le> d" "d \<le> daysInMonth y mi"
    by simp_all
  from rollDay_forward[OF n(3) roll] eq have "y = y0" by simp
  moreover have "mi div 12 = 0" using n(1,2) by simp
  ultimately have "\<not> (0 \<le> y \<and> y \<le> 99)" by (auto simp: y0_def split: if_splits)
  with n show "\<not> (0 \<le> y \<and> y \<le> 99) \<and> 0 \<le> mi \<and> mi \<le> 11 \<and> 1 \<le> d \<and> d \<le> daysInMonth y mi"
    by simp
qed

lemma yearOf_nonneg: "isDateText s \<Longrightarrow> 0 \<le> yearOf s"
proof -
  assume a: "isDateText s"
  then obtain ys ms ds where m: "matchIsoDate s = Some (ys, ms, ds)"
    using matchIsoDate_iff[of s] by auto
  then obtain y1 y2 y3 y4 s1 m1 m2 s2 d1 d2 where s: "s = [y1, y2, y3, y4, s1, m1, m2, s2, d1, d2]"
    by (cases s rule: matchIsoDate.cases) auto
  from a have "isDigit y1" "isDigit y2" "isDigit y3" "isDigit y4" by (simp_all add: s isDateText_def)
  from this[THEN digitValue_range] show ?thesis
    by (simp add: s yearOf_def Number_def)
qed

lemma parseIsoDateOnly_iff:
  "(parseIsoDateOnly v \<noteq> None) = (isRealDateText (trim v) \<and> 100 \<le> yearOf (trim v))"
proof (cases "matchIsoDate (trim v)")
  case None
  then have "\<not> isDateText (trim v)" using matchIsoDate_iff[of "trim v"] by simp
  with None show ?thesis by (simp add: parseIsoDateOnly_def isRealDateText_def)
next
  case (Some t)
  obtain ys ms ds where t: "t = (ys, ms, ds)" by (cases t)
  have dt: "isDateText (trim v)" using Some matchIsoDate_iff[of "trim v"] by simp
  note v = matchIsoDate_value[OF Some[unfolded t]]
  have "(parseIsoDateOnly v \<noteq> None) =
        (getFullYear (new_Date (yearOf (trim v)) (monthOf (trim v) - 1) (dayOf (trim v))) = yearOf (trim v) \<and>
         getMonth (new_Date (yearOf (trim v)) (monthOf (trim v) - 1) (dayOf (trim v))) = monthOf (trim v) - 1 \<and>
         getDate (new_Date (yearOf (trim v)) (monthOf (trim v) - 1) (dayOf (trim v))) = dayOf (trim v))"
    using v by (auto simp: parseIsoDateOnly_def Some t Let_def yearOf_def monthOf_def dayOf_def)
  also have "\<dots> = (isRealDateText (trim v) \<and> 100 \<le> yearOf (trim v))"
    unfolding new_Date_roundtrip using dt yearOf_nonneg[OF dt]
    by (auto simp: isRealDateText_def)
  finally show ?thesis .
qed

section \<open>Properties of the scheduler\<close>

lemma blocksOverlap_sym: "blocksOverlap a b = blocksOverlap b a"
  by (auto simp: blocksOverlap_def hasTimeOverlap_def)

lemma sorted_wrt_insort_key_sym:
  assumes "\<And>a b. P a b = P b a"
  shows "sorted_wrt P (insort_key f x xs) = ((\<forall>y \<in> set xs. P x y) \<and> sorted_wrt P xs)"
proof (induction xs)
  case Nil
  then show ?case by simp
next
  case (Cons y ys)
  then show ?case using assms[of y x] by (auto simp: set_insort_key)
qed

lemma sorted_wrt_sort_key_sym:
  assumes "\<And>a b. P a b = P b a"
  shows "sorted_wrt P (sort_key f xs) = sorted_wrt P xs"
  by (induction xs) (simp_all add: sorted_wrt_insort_key_sym[OF assms])

lemma set_obj_set: "set (obj_set k v g) \<subseteq> insert (k, v) (set g)"
  by (induction k v g rule: obj_set.induct) auto

lemma obj_get_obj_set: "obj_get (obj_set k v g) k' = (if k' = k then Some v else obj_get g k')"
  by (simp add: obj_get_def map_of_obj_set)

lemma list_all_obj_set: "Q (k, v) \<Longrightarrow> list_all Q g \<Longrightarrow> list_all Q (obj_set k v g)"
  using set_obj_set[of k v g] by (auto simp: list_all_iff)

lemma bucketOf_mem: "obj_get g k = Some es \<Longrightarrow> (k, es) \<in> set g"
  by (simp add: obj_get_def map_of_SomeD)

lemma overlapFree_bucketOf:
  "overlapFree g \<Longrightarrow> sorted_wrt (\<lambda>a b. \<not> blocksOverlap a b) (bucketOf g k)"
  by (auto simp: overlapFree_def bucketOf_def list_all_iff dest: bucketOf_mem split: option.splits)

lemma newBlock_times:
  "startMinutes (newBlock geocode palette generateId offset st event) = pe_startMinutes event"
  "endMinutes (newBlock geocode palette generateId offset st event) = pe_endMinutes event"
  "dayIndex (newBlock geocode palette generateId offset st event) = dayDiff event + offset"
  "title (newBlock geocode palette generateId offset st event) = pe_title event"
  by (simp_all add: newBlock_def)

lemma overlapFree_placeEvent:
  assumes "overlapFree (nextEvents st)"
  shows "overlapFree (nextEvents (placeEvent geocode palette generateId offset st event))"
proof (cases "overlapsExisting offset st event")
  case True
  with assms show ?thesis by (simp add: placeEvent_def Let_def)
next
  case False
  let ?k = "dayDiff event + offset"
  let ?b = "newBlock geocode palette generateId offset st event"
  let ?es = "bucketOf (nextEvents st) ?k"
  have no: "\<forall>x \<in> set ?es. \<not> blocksOverlap x ?b"
    using False
    by (auto simp: overlapsExisting_def list_ex_iff blocksOverlap_def newBlock_times hasTimeOverlap_def)
  have "sorted_wrt (\<lambda>a b. \<not> blocksOverlap a b) (?es @ [?b])"
    using overlapFree_bucketOf[OF assms, of ?k] no by (simp add: sorted_wrt_append)
  then have "sorted_wrt (\<lambda>a b. \<not> blocksOverlap a b) (sort_key startMinutes (?es @ [?b]))"
    by (subst sorted_wrt_sort_key_sym) (auto simp: blocksOverlap_sym)
  then have "overlapFree (obj_set ?k (sort_key startMinutes (?es @ [?b])) (nextEvents st))"
    using assms unfolding overlapFree_def by (intro list_all_obj_set) simp_all
  with False show ?thesis by (simp add: placeEvent_def Let_def)
qed

lemma overlapFree_placeAll:
  "overlapFree (nextEvents st) \<Longrightarrow>
   overlapFree (nextEvents (placeAll geocode palette generateId offset st cs))"
  unfolding placeAll_def
  by (induction cs arbitrary: st) (simp_all add: overlapFree_placeEvent)

lemma list_all_foldl_obj_set:
  "list_all Q acc \<Longrightarrow> \<forall>p \<in> set rest. Q (h p) \<Longrightarrow>
   list_all Q (foldl (\<lambda>acc p. obj_set (fst (h p)) (snd (h p)) acc) acc rest)"
  by (induction rest arbitrary: acc) (simp_all add: list_all_obj_set)

lemma shiftEvents_foldl:
  "shiftEvents offset evs =
     foldl (\<lambda>acc p. obj_set (fst (shiftEntry offset p)) (snd (shiftEntry offset p)) acc) [] evs"
  by (simp add: shiftEvents_def Object_entries_def shiftEntry_def Let_def case_prod_unfold)

lemma cloneEvents_foldl:
  "cloneEvents evs = foldl (\<lambda>acc p. obj_set (fst (id p)) (snd (id p)) acc) [] evs"
  by (simp add: cloneEvents_def Object_entries_def case_prod_unfold)

lemma overlapFree_shiftEvents: "overlapFree evs \<Longrightarrow> overlapFree (shiftEvents offset evs)"
  unfolding overlapFree_def shiftEvents_foldl
  by (rule list_all_foldl_obj_set)
     (auto simp: list_all_iff shiftEntry_def sorted_wrt_map blocksOverlap_def)

lemma overlapFree_cloneEvents: "overlapFree evs \<Longrightarrow> overlapFree (cloneEvents evs)"
  unfolding overlapFree_def cloneEvents_foldl
  by (rule list_all_foldl_obj_set) (auto simp: list_all_iff)

lemma overlapFree_planStart:
  "overlapFree (snap_events snapshot) \<Longrightarrow> overlapFree (nextEvents (planStart offset snapshot))"
  by (simp add: planStart_def overlapFree_cloneEvents overlapFree_shiftEvents)

lemma placeEvent_counts:
  "ps_created (placeEvent geocode palette generateId offset st event)
     + ps_skippedOverlap (placeEvent geocode palette generateId offset st event)
   = ps_created st + ps_skippedOverlap st + 1"
  by (simp add: placeEvent_def Let_def)

lemma placeAll_counts:
  "ps_created (placeAll geocode palette generateId offset st cs)
     + ps_skippedOverlap (placeAll geocode palette generateId offset st cs)
   = ps_created st + ps_skippedOverlap st + int (length cs)"
  unfolding placeAll_def
proof (induction cs arbitrary: st)
  case Nil
  then show ?case by simp
next
  case (Cons c cs)
  show ?case
    using Cons[of "placeEvent geocode palette generateId offset st c"]
      placeEvent_counts[of geocode palette generateId offset st c]
    by simp
qed

lemma placeAll_snoc:
  "placeAll geocode palette generateId offset st (pre @ [c])
   = placeEvent geocode palette generateId offset (placeAll geocode palette generateId offset st pre) c"
  by (simp add: placeAll_def)

lemma placeEvent_skips:
  "overlapsExisting offset st c \<Longrightarrow>
   placeEvent geocode palette generateId offset st c = st\<lparr>ps_skippedOverlap := ps_skippedOverlap st + 1\<rparr>"
  by (simp add: placeEvent_def Let_def)

lemma applyPlannedEvents_committed:
  assumes "0 < created (snd (applyPlannedEvents geocode palette generateId plannedEvents snapshot st))"
  shows "planCandidates snapshot plannedEvents \<noteq> [] \<and>
         0 < ps_created (runPlacement geocode palette generateId plannedEvents snapshot) \<and>
         st_events (fst (applyPlannedEvents geocode palette generateId plannedEvents snapshot st))
           = nextEvents (runPlacement geocode palette generateId plannedEvents snapshot) \<and>
         st_startDate (fst (applyPlannedEvents geocode palette generateId plannedEvents snapshot st))
           = addDays (startDateIso snapshot) (- planOffset (planCandidates snapshot plannedEvents)) \<and>
         dayViewIndex (fst (applyPlannedEvents geocode palette generateId plannedEvents snapshot st))
           = snap_dayViewIndex snapshot + planOffset (planCandidates snapshot plannedEvents)"
  using assms
  by (auto simp: applyPlannedEvents_def Let_def split: if_splits)

lemma applyPlannedEvents_skipped:
  "planCandidates snapshot plannedEvents \<noteq> [] \<Longrightarrow>
   skippedOverlap (snd (applyPlannedEvents geocode palette generateId plannedEvents snapshot st))
     = ps_skippedOverlap (runPlacement geocode palette generateId plannedEvents snapshot)"
  by (simp add: applyPlannedEvents_def Let_def)

lemma obj_set_append: "\<forall>a \<in> fst ` set g. a < k \<Longrightarrow> obj_set k v g = g @ [(k, v)]"
  by (induction k v g rule: obj_set.induct) auto

lemma foldl_obj_set_sorted:
  "sorted_wrt (<) (map (\<lambda>p. fst (h p)) rest) \<Longrightarrow>
   \<forall>a \<in> fst ` set acc. \<forall>p \<in> set rest. a < fst (h p) \<Longrightarrow>
   foldl (\<lambda>acc p. obj_set (fst (h p)) (snd (h p)) acc) acc rest = acc @ map h rest"
proof (induction rest arbitrary: acc)
  case Nil
  then show ?case by simp
next
  case (Cons p rest)
  have step: "obj_set (fst (h p)) (snd (h p)) acc = acc @ [h p]"
    using Cons.prems(2) by (simp add: obj_set_append)
  have "\<forall>a \<in> fst ` set (acc @ [h p]). \<forall>q \<in> set rest. a < fst (h q)"
    using Cons.prems by auto
  with Cons show ?case by (simp add: step)
qed

lemma shiftEvents_wf: "obj_wf evs \<Longrightarrow> shiftEvents offset evs = map (shiftEntry offset) evs"
proof -
  assume wf: "obj_wf evs"
  have "sorted_wrt (<) (map (\<lambda>p. fst (shiftEntry offset p)) evs)"
    using wf unfolding obj_wf_def by (simp add: sorted_wrt_map shiftEntry_def)
  from foldl_obj_set_sorted[where h="shiftEntry offset" and acc="[]", OF this]
  show ?thesis by (simp add: shiftEvents_foldl)
qed

lemma cloneEvents_wf: "obj_wf evs \<Longrightarrow> cloneEvents evs = evs"
proof -
  assume wf: "obj_wf evs"
  then have "sorted_wrt (<) (map (\<lambda>p. fst (id p)) evs)" by (simp add: obj_wf_def)
  from foldl_obj_set_sorted[where h=id and acc="[]", OF this]
  show ?thesis by (simp add: cloneEvents_foldl)
qed

lemma obj_wf_shift: "obj_wf evs \<Longrightarrow> obj_wf (map (shiftEntry offset) evs)"
  unfolding obj_wf_def by (simp add: sorted_wrt_map shiftEntry_def comp_def)

lemma planStart_events_wf:
  "obj_wf (snap_events snapshot) \<Longrightarrow>
   nextEvents (planStart offset snapshot) = map (shiftEntry offset) (snap_events snapshot)"
  by (simp add: planStart_def shiftEvents_wf cloneEvents_wf obj_wf_shift)

lemma planStart_bucket:
  assumes "obj_wf (snap_events snapshot)" "(k, es) \<in> set (snap_events snapshot)"
  shows "bucketOf (nextEvents (planStart offset snapshot)) (k + offset)
         = map (\<lambda>event. event\<lparr>dayIndex := k + offset\<rparr>) es"
proof -
  have "shiftEntry offset (k, es) \<in> set (map (shiftEntry offset) (snap_events snapshot))"
    using assms(2) by (simp add: image_iff) blast
  moreover have "distinct (map fst (map (shiftEntry offset) (snap_events snapshot)))"
    using obj_wf_shift[OF assms(1)] by (rule obj_wf_distinct)
  ultimately have "map_of (map (shiftEntry offset) (snap_events snapshot)) (k + offset)
                   = Some (map (\<lambda>event. event\<lparr>dayIndex := k + offset\<rparr>) es)"
    by (simp add: shiftEntry_def)
  then show ?thesis
    by (simp add: planStart_events_wf[OF assms(1)] bucketOf_def obj_get_def)
qed

lemma bucketOf_obj_set:
  "bucketOf (obj_set k v g) k' = (if k' = k then v else bucketOf g k')"
  by (simp add: bucketOf_def obj_get_obj_set)

lemma bucket_mono_placeEvent:
  "e \<in> set (bucketOf (nextEvents st) k) \<Longrightarrow>
   e \<in> set (bucketOf (nextEvents (placeEvent geocode palette generateId offset st c)) k)"
  by (auto simp: placeEvent_def Let_def bucketOf_obj_set)

lemma bucket_mono_placeAll:
  "e \<in> set (bucketOf (nextEvents st) k) \<Longrightarrow>
   e \<in> set (bucketOf (nextEvents (placeAll geocode palette generateId offset st cs)) k)"
  unfolding placeAll_def
  by (induction cs arbitrary: st) (simp_all add: bucket_mono_placeEvent)

lemma placeEvent_accepts:
  "\<not> overlapsExisting offset st c \<Longrightarrow>
   newBlock geocode palette generateId offset st c
     \<in> set (bucketOf (nextEvents (placeEvent geocode palette generateId offset st c)) (dayDiff c + offset))"
  by (simp add: placeEvent_def Let_def bucketOf_obj_set)

lemma placeAll_append:
  "placeAll geocode palette generateId offset st (pre @ c # post)
   = placeAll geocode palette generateId offset
       (placeEvent geocode palette generateId offset (placeAll geocode palette generateId offset st pre) c) post"
  by (simp add: placeAll_def)

lemma neg_part_max: "(if (m::int) < 0 then - m else 0) = max 0 (- m)"
  by (simp add: max_def)

lemma planOffset_Min:
  assumes "cs \<noteq> []"
  shows "planOffset cs = max 0 (- Min (set (map dayDiff cs)))"
proof -
  have "map dayDiff cs \<noteq> []" using assms by simp
  then have m: "min_list (map dayDiff cs) = Min (set (map dayDiff cs))" by (rule min_list_Min)
  show ?thesis unfolding planOffset_def Let_def m by (rule neg_part_max)
qed

lemma planOffset_nonneg_index:
  assumes "c \<in> set cs"
  shows "0 \<le> dayDiff c + planOffset cs"
proof -
  have ne: "cs \<noteq> []" using assms by auto
  have "Min (set (map dayDiff cs)) \<le> dayDiff c" using assms by simp
  moreover have "- Min (set (map dayDiff cs)) \<le> max 0 (- Min (set (map dayDiff cs)))"
    by (rule max.cobounded2)
  ultimately show ?thesis unfolding planOffset_Min[OF ne] by linarith
qed

lemma dayNumber_rawDay: "dayNumber v = rawDay (getFullYear v) (getMonth v) (getDate v)"
  by (simp add: dayNumber_def rawDay_def)

lemma dayNumber_addDays:
  assumes "0 \<le> getMonth v" "getMonth v \<le> 11"
  shows "dayNumber (addDays v n) = dayNumber v + n"
proof -
  obtain Y M D where roll: "rollDay (getFullYear v) (getMonth v) (getDate v + n) = (Y, M, D)"
    by (cases "rollDay (getFullYear v) (getMonth v) (getDate v + n)")
  have dm: "getMonth v div 12 = 0" "getMonth v mod 12 = getMonth v" using assms by simp_all
  have "addDays v n = \<lparr>getFullYear = Y, getMonth = M, getDate = D, msOfDay = msOfDay v\<rparr>"
    by (simp add: addDays_def setDate_def makeDate_def dm roll)
  then have "dayNumber (addDays v n) = rawDay Y M D" by (simp add: dayNumber_rawDay)
  also have "\<dots> = rawDay (getFullYear v) (getMonth v) (getDate v + n)"
    by (rule rollDay_rawDay[OF assms roll])
  also have "\<dots> = dayNumber v + n" by (simp add: dayNumber_rawDay rawDay_def)
  finally show ?thesis .
qed

text \<open>
  C6 (day shift). The snapshot's events are a JavaScript object (\<open>obj_wf\<close>) and its
  start a date with a month from 0 to 11. When the batch is committed, with
  \<open>offset = max 0 (- minimum day offset)\<close> over its candidates: the window start is
  the snapshot's start moved by \<open>addDays\<close> to \<open>offset\<close> days earlier; every
  pre-existing event of day bucket \<open>k\<close> is in bucket \<open>k + offset\<close> with its
  \<open>dayIndex\<close> set to \<open>k + offset\<close>; every candidate that is accepted when its
  turn comes has a block in bucket \<open>dayDiff + offset\<close> with that \<open>dayIndex\<close>; and
  no candidate gets a negative day index. The witness is the scenario of the claim: an event
  at day index 2 and a candidate three days before the start.
\<close>

theorem day_shift:
  assumes "obj_wf (snap_events snapshot)"
      and "0 \<le> getMonth (startDateIso snapshot)" "getMonth (startDateIso snapshot) \<le> 11"
      and "0 < created (snd (applyPlannedEvents geocode palette generateId plannedEvents snapshot st))"
  shows "(let cs = planCandidates snapshot plannedEvents;
              offset = planOffset cs;
              st' = fst (applyPlannedEvents geocode palette generateId plannedEvents snapshot st)
          in offset = max 0 (- Min (set (map dayDiff cs))) \<and>
             st_startDate st' = addDays (startDateIso snapshot) (- offset) \<and>
             dayNumber (st_startDate st') = dayNumber (startDateIso snapshot) - offset \<and>
             (\<forall>(k, dayEvents) \<in> set (snap_events snapshot). \<forall>e \<in> set dayEvents.
                e\<lparr>dayIndex := k + offset\<rparr> \<in> set (bucketOf (st_events st') (k + offset))) \<and>
             (\<forall>pre c post.
                cs = pre @ c # post \<and>
                \<not> overlapsExisting offset
                    (placeAll geocode palette generateId offset (planStart offset snapshot) pre) c \<longrightarrow>
                (\<exists>b \<in> set (bucketOf (st_events st') (dayDiff c + offset)).
                   dayIndex b = dayDiff c + offset \<and> startMinutes b = pe_startMinutes c \<and>
                   endMinutes b = pe_endMinutes c \<and> title b = pe_title c)) \<and>
             (\<forall>c \<in> set cs. 0 \<le> dayDiff c + offset))"
proof -
  let ?cs = "planCandidates snapshot plannedEvents"
  let ?off = "planOffset ?cs"
  let ?st' = "fst (applyPlannedEvents geocode palette generateId plannedEvents snapshot st)"
  let ?start = "planStart ?off snapshot"
  note c = applyPlannedEvents_committed[OF assms(4)]
  have ev: "st_events ?st' = nextEvents (placeAll geocode palette generateId ?off ?start ?cs)"
    using c by (simp add: runPlacement_def Let_def)
  have a: "?off = max 0 (- Min (set (map dayDiff ?cs)))"
    using c by (simp add: planOffset_Min)
  have b: "st_startDate ?st' = addDays (startDateIso snapshot) (- ?off)" using c by simp
  have b': "dayNumber (st_startDate ?st') = dayNumber (startDateIso snapshot) - ?off"
    unfolding b by (simp add: dayNumber_addDays[OF assms(2,3)])
  have d: "\<forall>(k, dayEvents) \<in> set (snap_events snapshot). \<forall>e \<in> set dayEvents.
                e\<lparr>dayIndex := k + ?off\<rparr> \<in> set (bucketOf (st_events ?st') (k + ?off))"
  proof (clarify)
    fix k dayEvents e
    assume m: "(k, dayEvents) \<in> set (snap_events snapshot)" and e: "e \<in> set dayEvents"
    have "e\<lparr>dayIndex := k + ?off\<rparr> \<in> set (bucketOf (nextEvents ?start) (k + ?off))"
      using e by (simp add: planStart_bucket[OF assms(1) m])
    then show "e\<lparr>dayIndex := k + ?off\<rparr> \<in> set (bucketOf (st_events ?st') (k + ?off))"
      unfolding ev by (rule bucket_mono_placeAll)
  qed
  have f: "\<forall>pre c post.
                ?cs = pre @ c # post \<and>
                \<not> overlapsExisting ?off (placeAll geocode palette generateId ?off ?start pre) c \<longrightarrow>
                (\<exists>b \<in> set (bucketOf (st_events ?st') (dayDiff c + ?off)).
                   dayIndex b = dayDiff c + ?off \<and> startMinutes b = pe_startMinutes c \<and>
                   endMinutes b = pe_endMinutes c \<and> title b = pe_title c)"
  proof (intro allI impI, elim conjE)
    fix pre c post
    assume split: "?cs = pre @ c # post"
      and no: "\<not> overlapsExisting ?off (placeAll geocode palette generateId ?off ?start pre) c"
    let ?mid = "placeAll geocode palette generateId ?off ?start pre"
    let ?b = "newBlock geocode palette generateId ?off ?mid c"
    have "?b \<in> set (bucketOf (nextEvents (placeEvent geocode palette generateId ?off ?mid c)) (dayDiff c + ?off))"
      using no by (rule placeEvent_accepts)
    then have "?b \<in> set (bucketOf (nextEvents (placeAll geocode palette generateId ?off
                 (placeEvent geocode palette generateId ?off ?mid c) post)) (dayDiff c + ?off))"
      by (rule bucket_mono_placeAll)
    then have "?b \<in> set (bucketOf (st_events ?st') (dayDiff c + ?off))"
      unfolding ev by (subst split) (simp only: placeAll_append)
    then show "\<exists>b \<in> set (bucketOf (st_events ?st') (dayDiff c + ?off)).
                   dayIndex b = dayDiff c + ?off \<and> startMinutes b = pe_startMinutes c \<and>
                   endMinutes b = pe_endMinutes c \<and> title b = pe_title c"
      by (intro bexI[of _ ?b]) (simp_all add: newBlock_times)
  qed
  have g: "\<forall>c \<in> set ?cs. 0 \<le> dayDiff c + ?off"
    by (simp add: planOffset_nonneg_index)
  show ?thesis
    unfolding Let_def using a b b' d f g by blast
qed

lemma map_of_shiftEntry:
  "map_of (map (shiftEntry offset) evs) d
   = map_option (map (\<lambda>event. event\<lparr>dayIndex := d\<rparr>)) (map_of evs (d - offset))"
proof (induction evs)
  case Nil
  then show ?case by simp
next
  case (Cons p evs)
  have k: "(fst p + offset = d) = (fst p = d - offset)" by linarith
  show ?case
  proof (cases "fst p = d - offset")
    case True
    then have "fst p + offset = d" using k by simp
    then show ?thesis using True by (cases p) (simp add: shiftEntry_def)
  next
    case False
    then have "fst p + offset \<noteq> d" using k by simp
    then show ?thesis using False Cons by (cases p) (simp add: shiftEntry_def)
  qed
qed

lemma planStart_shiftedDay:
  "obj_wf (snap_events snapshot) \<Longrightarrow>
   bucketOf (nextEvents (planStart offset snapshot)) d = shiftedDay offset snapshot d"
  by (simp add: planStart_events_wf bucketOf_def obj_get_def map_of_shiftEntry shiftedDay_def
           split: option.splits)

lemma placeEvent_bucket_set:
  "set (bucketOf (nextEvents (placeEvent geocode palette generateId offset st c)) d)
   = set (bucketOf (nextEvents st) d)
     \<union> {b \<in> set (acceptedBlocks geocode palette generateId offset st [c]). dayIndex b = d}"
  by (auto simp: placeEvent_def Let_def bucketOf_obj_set newBlock_times)

lemma acceptedBlocks_append:
  "acceptedBlocks geocode palette generateId offset st (xs @ ys)
   = acceptedBlocks geocode palette generateId offset st xs
     @ acceptedBlocks geocode palette generateId offset
         (placeAll geocode palette generateId offset st xs) ys"
  by (induction xs arbitrary: st) (simp_all add: placeAll_def)

lemma placeAll_bucket_set:
  "set (bucketOf (nextEvents (placeAll geocode palette generateId offset st cs)) d)
   = set (bucketOf (nextEvents st) d)
     \<union> {b \<in> set (acceptedBlocks geocode palette generateId offset st cs). dayIndex b = d}"
proof (induction cs arbitrary: st)
  case Nil
  then show ?case by (simp add: placeAll_def)
next
  case (Cons c cs)
  have "placeAll geocode palette generateId offset st (c # cs)
        = placeAll geocode palette generateId offset
            (placeEvent geocode palette generateId offset st c) cs"
    by (simp add: placeAll_def)
  then show ?case
    using Cons[of "placeEvent geocode palette generateId offset st c"]
      placeEvent_bucket_set[of geocode palette generateId offset st c d]
    by auto
qed

lemma sorted_wrt_all: "(\<forall>x \<in> set xs. \<forall>y \<in> set xs. P x y) \<Longrightarrow> sorted_wrt P xs"
  by (induction xs) auto

lemma onlyOldOverlap_refl: "onlyOldOverlap old old"
  unfolding onlyOldOverlap_def by (rule sorted_wrt_all) simp

lemma onlyOldOverlap_placeEvent:
  assumes "\<forall>d. onlyOldOverlap (old d) (bucketOf (nextEvents st) d)"
  shows "onlyOldOverlap (old d)
           (bucketOf (nextEvents (placeEvent geocode palette generateId offset st c)) d)"
proof (cases "overlapsExisting offset st c")
  case True
  with assms show ?thesis by (simp add: placeEvent_def Let_def)
next
  case False
  let ?k = "dayDiff c + offset"
  let ?b = "newBlock geocode palette generateId offset st c"
  let ?es = "bucketOf (nextEvents st) ?k"
  let ?R = "\<lambda>a b. blocksOverlap a b \<longrightarrow> a \<in> set (old d) \<and> b \<in> set (old d)"
  have ev: "nextEvents (placeEvent geocode palette generateId offset st c)
            = obj_set ?k (sort_key startMinutes (?es @ [?b])) (nextEvents st)"
    using False by (simp add: placeEvent_def Let_def)
  show ?thesis
  proof (cases "d = ?k")
    case neq: False
    then show ?thesis using assms by (simp add: ev bucketOf_obj_set)
  next
    case eq: True
    have no: "\<forall>x \<in> set ?es. \<not> blocksOverlap x ?b"
      using False
      by (auto simp: overlapsExisting_def list_ex_iff blocksOverlap_def newBlock_times hasTimeOverlap_def)
    have sym: "\<And>a b. ?R a b = ?R b a" by (auto simp: blocksOverlap_sym)
    have "sorted_wrt ?R ?es" using assms eq by (simp add: onlyOldOverlap_def)
    then have "sorted_wrt ?R (?es @ [?b])" using no by (simp add: sorted_wrt_append)
    then have "sorted_wrt ?R (sort_key startMinutes (?es @ [?b]))"
      by (simp only: sorted_wrt_sort_key_sym[of ?R, OF sym])
    then show ?thesis using eq by (simp add: ev bucketOf_obj_set onlyOldOverlap_def)
  qed
qed

lemma onlyOldOverlap_placeAll:
  "\<forall>d. onlyOldOverlap (old d) (bucketOf (nextEvents st) d) \<Longrightarrow>
   onlyOldOverlap (old d) (bucketOf (nextEvents (placeAll geocode palette generateId offset st cs)) d)"
proof (induction cs arbitrary: st d)
  case Nil
  then show ?case by (simp add: placeAll_def)
next
  case (Cons c cs)
  have step: "\<forall>d. onlyOldOverlap (old d)
                (bucketOf (nextEvents (placeEvent geocode palette generateId offset st c)) d)"
    using onlyOldOverlap_placeEvent[OF Cons.prems] by blast
  have "placeAll geocode palette generateId offset st (c # cs)
        = placeAll geocode palette generateId offset
            (placeEvent geocode palette generateId offset st c) cs"
    by (simp add: placeAll_def)
  then show ?case using Cons.IH[OF step] by simp
qed

lemma overlapsExisting_iff:
  "overlapsExisting offset st c
   = (\<exists>e \<in> set (bucketOf (nextEvents st) (dayDiff c + offset)).
        hasTimeOverlap (pe_startMinutes c) (pe_endMinutes c) (startMinutes e) (endMinutes e))"
  by (simp add: overlapsExisting_def list_ex_iff)

lemma placeEvent_creates:
  "\<not> overlapsExisting offset st c \<Longrightarrow>
   ps_created (placeEvent geocode palette generateId offset st c) = ps_created st + 1 \<and>
   ps_skippedOverlap (placeEvent geocode palette generateId offset st c) = ps_skippedOverlap st"
  by (simp add: placeEvent_def Let_def)

lemma applyPlannedEvents_created:
  "planCandidates snapshot plannedEvents \<noteq> [] \<Longrightarrow>
   created (snd (applyPlannedEvents geocode palette generateId plannedEvents snapshot st))
     = ps_created (runPlacement geocode palette generateId plannedEvents snapshot)"
  by (simp add: applyPlannedEvents_def Let_def)

lemma placed_test:
  assumes "obj_wf (snap_events snapshot)"
  shows "list_ex (\<lambda>e. hasTimeOverlap (pe_startMinutes c) (pe_endMinutes c) (startMinutes e) (endMinutes e))
           (shiftedDay offset snapshot (dayDiff c + offset)
            @ filter (\<lambda>b. dayIndex b = dayDiff c + offset)
                (acceptedBlocks geocode palette generateId offset (planStart offset snapshot) pre))
         = overlapsExisting offset
             (placeAll geocode palette generateId offset (planStart offset snapshot) pre) c"
proof -
  have "set (bucketOf (nextEvents (placeAll geocode palette generateId offset (planStart offset snapshot) pre))
               (dayDiff c + offset))
        = set (shiftedDay offset snapshot (dayDiff c + offset)
               @ filter (\<lambda>b. dayIndex b = dayDiff c + offset)
                   (acceptedBlocks geocode palette generateId offset (planStart offset snapshot) pre))"
    by (simp add: placeAll_bucket_set planStart_shiftedDay[OF assms])
  then show ?thesis
    unfolding overlapsExisting_iff list_ex_iff by simp
qed

lemma acceptedBlocks_snoc:
  "\<not> overlapsExisting offset (placeAll geocode palette generateId offset st pre) c \<Longrightarrow>
   acceptedBlocks geocode palette generateId offset st (pre @ [c])
   = acceptedBlocks geocode palette generateId offset st pre
     @ [newBlock geocode palette generateId offset
          (placeAll geocode palette generateId offset st pre) c]"
  by (simp add: acceptedBlocks_append)

text \<open>
  C5 (overlap law, as amended). The snapshot's events are a JavaScript object
  (\<open>obj_wf\<close>). The placement loop starts from the shifted pre-existing events and
  ends with a document whose every day bucket holds exactly those events and the blocks
  accepted from the batch; any two events of a bucket that overlap are both pre-existing,
  so a snapshot with no overlapping pair gives a document with none, and this is the
  document committed when a block was created. Each candidate, in the sorted order, is
  tested against the events placed on its target day so far, the shifted pre-existing ones
  and the blocks accepted before it: when it overlaps one of them the events stay as they
  are and the overlap count goes up by one, otherwise it becomes the next accepted block.
  Every candidate is either created or counted, and the counts are the ones reported.
\<close>

theorem insertion_overlap_law:
  assumes "obj_wf (snap_events snapshot)"
  shows "(let cs = planCandidates snapshot plannedEvents;
              offset = planOffset cs;
              start = planStart offset snapshot;
              fin = runPlacement geocode palette generateId plannedEvents snapshot;
              applied = applyPlannedEvents geocode palette generateId plannedEvents snapshot st
          in (\<forall>d. bucketOf (nextEvents start) d = shiftedDay offset snapshot d) \<and>
             (\<forall>d. set (bucketOf (nextEvents fin) d)
                    = set (shiftedDay offset snapshot d
                           @ filter (\<lambda>b. dayIndex b = d)
                               (acceptedBlocks geocode palette generateId offset start cs))) \<and>
             (\<forall>d. onlyOldOverlap (shiftedDay offset snapshot d) (bucketOf (nextEvents fin) d)) \<and>
             (overlapFree (snap_events snapshot) \<longrightarrow> overlapFree (nextEvents fin)) \<and>
             (0 < created (snd applied) \<longrightarrow> st_events (fst applied) = nextEvents fin) \<and>
             (\<forall>pre c post. cs = pre @ c # post \<longrightarrow>
                (let before = placeAll geocode palette generateId offset start pre;
                     after = placeAll geocode palette generateId offset start (pre @ [c]);
                     placed = shiftedDay offset snapshot (dayDiff c + offset)
                              @ filter (\<lambda>b. dayIndex b = dayDiff c + offset)
                                  (acceptedBlocks geocode palette generateId offset start pre)
                 in if list_ex (\<lambda>e. hasTimeOverlap (pe_startMinutes c) (pe_endMinutes c)
                                       (startMinutes e) (endMinutes e)) placed
                    then after = before\<lparr>ps_skippedOverlap := ps_skippedOverlap before + 1\<rparr>
                    else ps_created after = ps_created before + 1 \<and>
                         ps_skippedOverlap after = ps_skippedOverlap before \<and>
                         acceptedBlocks geocode palette generateId offset start (pre @ [c])
                           = acceptedBlocks geocode palette generateId offset start pre
                             @ [newBlock geocode palette generateId offset before c])) \<and>
             ps_created fin + ps_skippedOverlap fin = int (length cs) \<and>
             (cs \<noteq> [] \<longrightarrow>
                created (snd applied) = ps_created fin \<and>
                skippedOverlap (snd applied) = ps_skippedOverlap fin))"
proof -
  let ?cs = "planCandidates snapshot plannedEvents"
  let ?off = "planOffset ?cs"
  let ?start = "planStart ?off snapshot"
  let ?fin = "runPlacement geocode palette generateId plannedEvents snapshot"
  let ?applied = "applyPlannedEvents geocode palette generateId plannedEvents snapshot st"
  have fin: "?fin = placeAll geocode palette generateId ?off ?start ?cs"
    by (simp add: runPlacement_def Let_def)
  have a: "\<forall>d. bucketOf (nextEvents ?start) d = shiftedDay ?off snapshot d"
    by (simp add: planStart_shiftedDay[OF assms])
  have b: "\<forall>d. set (bucketOf (nextEvents ?fin) d)
                = set (shiftedDay ?off snapshot d
                       @ filter (\<lambda>b. dayIndex b = d)
                           (acceptedBlocks geocode palette generateId ?off ?start ?cs))"
    unfolding fin by (simp add: placeAll_bucket_set planStart_shiftedDay[OF assms])
  have c0: "\<forall>d. onlyOldOverlap (shiftedDay ?off snapshot d) (bucketOf (nextEvents ?start) d)"
    by (simp add: planStart_shiftedDay[OF assms] onlyOldOverlap_refl)
  have c: "\<forall>d. onlyOldOverlap (shiftedDay ?off snapshot d) (bucketOf (nextEvents ?fin) d)"
    unfolding fin using onlyOldOverlap_placeAll[OF c0] by blast
  have d: "overlapFree (snap_events snapshot) \<longrightarrow> overlapFree (nextEvents ?fin)"
    unfolding fin by (intro impI overlapFree_placeAll overlapFree_planStart)
  have e: "0 < created (snd ?applied) \<longrightarrow> st_events (fst ?applied) = nextEvents ?fin"
    using applyPlannedEvents_committed[of geocode palette generateId plannedEvents snapshot st]
    by blast
  have f: "\<forall>pre c post. ?cs = pre @ c # post \<longrightarrow>
                (let before = placeAll geocode palette generateId ?off ?start pre;
                     after = placeAll geocode palette generateId ?off ?start (pre @ [c]);
                     placed = shiftedDay ?off snapshot (dayDiff c + ?off)
                              @ filter (\<lambda>b. dayIndex b = dayDiff c + ?off)
                                  (acceptedBlocks geocode palette generateId ?off ?start pre)
                 in if list_ex (\<lambda>e. hasTimeOverlap (pe_startMinutes c) (pe_endMinutes c)
                                       (startMinutes e) (endMinutes e)) placed
                    then after = before\<lparr>ps_skippedOverlap := ps_skippedOverlap before + 1\<rparr>
                    else ps_created after = ps_created before + 1 \<and>
                         ps_skippedOverlap after = ps_skippedOverlap before \<and>
                         acceptedBlocks geocode palette generateId ?off ?start (pre @ [c])
                           = acceptedBlocks geocode palette generateId ?off ?start pre
                             @ [newBlock geocode palette generateId ?off before c])"
    unfolding Let_def placed_test[OF assms]
    by (simp add: placeAll_snoc placeEvent_skips placeEvent_creates acceptedBlocks_snoc)
  have g: "ps_created ?fin + ps_skippedOverlap ?fin = int (length ?cs)"
    unfolding fin by (simp add: placeAll_counts planStart_def)
  have h: "?cs \<noteq> [] \<longrightarrow>
             created (snd ?applied) = ps_created ?fin \<and>
             skippedOverlap (snd ?applied) = ps_skippedOverlap ?fin"
    by (simp add: applyPlannedEvents_created applyPlannedEvents_skipped)
  from a b c d e f g h show ?thesis
    unfolding Let_def by (intro conjI)
qed

section \<open>Properties of the rollback ledger and the chat handlers\<close>

lemma appendAiAssistantMessage_frame:
  "st_events (appendAiAssistantMessage c t v st) = st_events st"
  "st_numDays (appendAiAssistantMessage c t v st) = st_numDays st"
  "st_startDate (appendAiAssistantMessage c t v st) = st_startDate st"
  "dayViewIndex (appendAiAssistantMessage c t v st) = dayViewIndex st"
  "aiRollbackByCalendar (appendAiAssistantMessage c t v st) = aiRollbackByCalendar st"
  "currentCalendarId (appendAiAssistantMessage c t v st) = currentCalendarId st"
  by (simp_all add: appendAiAssistantMessage_def appendAiMessage_def Let_def)

text \<open>
  C7 (rollback exactness). A snapshot of the state \<open>st0\<close> (whose events are a
  JavaScript object, \<open>obj_wf\<close>), captured for the active calendar \<open>cid\<close> in any
  later state \<open>st\<close>, is restored by the rollback action: events, numDays, startDate
  and the focused day index are those of \<open>st0\<close>, the slot of \<open>cid\<close> is cleared
  and every other slot is untouched; a second rollback finds no snapshot and returns the
  state as it is.
\<close>

theorem rollback_exact:
  assumes "currentCalendarId st = Some cid" and "obj_wf (st_events st0)"
  shows "st_events (handleAiRollback (captureRollback cid (makeSnapshot st0) st)) = st_events st0 \<and>
         st_numDays (handleAiRollback (captureRollback cid (makeSnapshot st0) st)) = st_numDays st0 \<and>
         st_startDate (handleAiRollback (captureRollback cid (makeSnapshot st0) st)) = st_startDate st0 \<and>
         dayViewIndex (handleAiRollback (captureRollback cid (makeSnapshot st0) st)) = dayViewIndex st0 \<and>
         aiRollbackByCalendar (handleAiRollback (captureRollback cid (makeSnapshot st0) st))
           = (aiRollbackByCalendar st)(cid \<mapsto> None) \<and>
         handleAiRollback (handleAiRollback (captureRollback cid (makeSnapshot st0) st))
           = handleAiRollback (captureRollback cid (makeSnapshot st0) st)"
proof -
  let ?st1 = "captureRollback cid (makeSnapshot st0) st"
  let ?st2 = "handleAiRollback ?st1"
  have ev: "cloneEvents (cloneEvents (st_events st0)) = st_events st0"
    using assms(2) by (simp add: cloneEvents_wf)
  have st2: "?st2 = appendAiAssistantMessage cid ''Rolled back the last AI-generated event batch.'' Success
                 (?st1\<lparr>st_events := cloneEvents (snap_events (makeSnapshot st0)),
                      st_numDays := snap_numDays (makeSnapshot st0),
                      st_startDate := startDateIso (makeSnapshot st0),
                      dayViewIndex := snap_dayViewIndex (makeSnapshot st0),
                      aiRollbackByCalendar := (aiRollbackByCalendar ?st1)(cid \<mapsto> None)\<rparr>)"
    using assms(1) by (simp add: handleAiRollback_def captureRollback_def)
  have led: "aiRollbackByCalendar ?st2 = (aiRollbackByCalendar st)(cid \<mapsto> None)"
    unfolding st2 by (simp add: appendAiAssistantMessage_frame captureRollback_def)
  have cur: "currentCalendarId ?st2 = Some cid"
    unfolding st2 using assms(1) by (simp add: appendAiAssistantMessage_frame captureRollback_def)
  have again: "handleAiRollback ?st2 = ?st2"
    using cur led by (simp add: handleAiRollback_def)
  have f1: "st_events ?st2 = st_events st0"
    unfolding st2 by (simp add: appendAiAssistantMessage_frame makeSnapshot_def ev)
  have f2: "st_numDays ?st2 = st_numDays st0"
    unfolding st2 by (simp add: appendAiAssistantMessage_frame makeSnapshot_def)
  have f3: "st_startDate ?st2 = st_startDate st0"
    unfolding st2 by (simp add: appendAiAssistantMessage_frame makeSnapshot_def)
  have f4: "dayViewIndex ?st2 = dayViewIndex st0"
    unfolding st2 by (simp add: appendAiAssistantMessage_frame makeSnapshot_def)
  from f1 f2 f3 f4 led again show ?thesis by (intro conjI)
qed

lemma response_check_discards:
  assumes "currentCalendarIdRef st \<noteq> Some requestCalendarId"
  shows "snd (handleAiMessage_response requestCalendarId payload st) = None \<and>
         st_events (fst (handleAiMessage_response requestCalendarId payload st)) = st_events st \<and>
         st_numDays (fst (handleAiMessage_response requestCalendarId payload st)) = st_numDays st \<and>
         st_startDate (fst (handleAiMessage_response requestCalendarId payload st)) = st_startDate st \<and>
         dayViewIndex (fst (handleAiMessage_response requestCalendarId payload st)) = dayViewIndex st \<and>
         aiRollbackByCalendar (fst (handleAiMessage_response requestCalendarId payload st))
           = aiRollbackByCalendar st"
  using assms
  by (simp add: handleAiMessage_response_def Let_def appendAiAssistantMessage_frame)

section \<open>Properties of the normalizer\<close>

lemma normalizeItem_None_iff:
  "(normalizeItem currentStartDay item = None) = (\<not> acceptedPlanItem item)"
proof -
  have "(normalizeItem currentStartDay item = None) =
        (parseIsoDateOnly (ai_date item) = None \<or> parseTimeToMinutes (startTime item) = None \<or>
         parseTimeToMinutes (endTime item) = None)"
    by (auto simp: normalizeItem_def Let_def split: option.splits)
  then show ?thesis
    using parseIsoDateOnly_iff[of "ai_date item"] parseTimeToMinutes_iff[of "startTime item"]
      parseTimeToMinutes_iff[of "endTime item"]
    by (auto simp: acceptedPlanItem_def validPlanItem_def)
qed

lemma parsePlanned_foldl:
  "foldl (\<lambda>(parsed, skippedInvalid) item.
              case normalizeItem d item of
                None \<Rightarrow> (parsed, skippedInvalid + 1)
              | Some p \<Rightarrow> (parsed @ [p], skippedInvalid))
         (ps, n) items
   = (ps @ List.map_filter (normalizeItem d) items,
      n + int (length (filter (\<lambda>i. normalizeItem d i = None) items)))"
  by (induction items arbitrary: ps n) (auto simp: map_filter_simps split: option.splits)

lemma map_Some_map_filter:
  "map Some (List.map_filter f xs) = map f (filter (\<lambda>x. f x \<noteq> None) xs)"
  by (induction xs) (auto simp: map_filter_simps split: option.splits)

lemma parsePlanned_accepted:
  "snd (parsePlanned currentStartDay items)
     = int (length (filter (\<lambda>i. \<not> acceptedPlanItem i) items)) \<and>
   map Some (fst (parsePlanned currentStartDay items))
     = map (normalizeItem currentStartDay) (filter acceptedPlanItem items)"
proof -
  have n: "(\<lambda>i. normalizeItem currentStartDay i = None) = (\<lambda>i. \<not> acceptedPlanItem i)"
    by (simp add: normalizeItem_None_iff fun_eq_iff)
  then have s: "(\<lambda>i. normalizeItem currentStartDay i \<noteq> None) = acceptedPlanItem"
    by (simp add: fun_eq_iff)
  show ?thesis
    by (simp add: normalizeItem_None_iff parsePlanned_def parsePlanned_foldl map_Some_map_filter n s)
qed

lemma normalizeItem_from_year_100:
  "100 \<le> yearOf (trim (ai_date item)) \<Longrightarrow>
   (normalizeItem currentStartDay item = None) = (\<not> validPlanItem item)"
  by (simp add: normalizeItem_None_iff acceptedPlanItem_def)

lemma clamp_start:
  fixes s S :: int
  assumes "S = max 0 (min 1410 s)"
  shows "0 \<le> S \<and> S \<le> 1410"
  unfolding assms by (auto simp: max_def min_def)

lemma clamp_end:
  fixes e S E :: int
  assumes "0 \<le> S" "S \<le> 1410" "E = max (S + 30) (min 1440 (if e > S then e else S + 60))"
  shows "E \<le> 1440 \<and> 30 \<le> E - S"
  using assms(1,2) unfolding assms(3) by (auto simp: max_def min_def)

lemma clamp_short:
  fixes s e S E :: int
  assumes "S = max 0 (min 1410 s)" "E = max (S + 30) (min 1440 (if e > S then e else S + 60))"
    and "0 \<le> s" "e \<le> 1439" "s < e" "e < s + 30"
  shows "E = S + 30"
  using assms(3-) unfolding assms(1,2) by (auto simp: max_def min_def)

text \<open>
  C10 (candidate bounds). A candidate the normalizer yields has its start within
  0..1410, its end at most 1440 and at least 30 minutes after its start; when the parsed
  end exceeds the parsed start by fewer than 30 minutes the end is the start plus 30.
\<close>

theorem normalized_bounds:
  assumes "normalizeItem currentStartDay item = Some c"
  shows "0 \<le> pe_startMinutes c \<and> pe_startMinutes c \<le> 1410 \<and> pe_endMinutes c \<le> 1440 \<and>
         30 \<le> pe_endMinutes c - pe_startMinutes c \<and>
         (\<forall>s e. parseTimeToMinutes (startTime item) = Some s \<and>
                 parseTimeToMinutes (endTime item) = Some e \<and> s < e \<and> e < s + 30 \<longrightarrow>
                 pe_endMinutes c = pe_startMinutes c + 30)"
proof -
  from assms obtain dt s e where
    p: "parseIsoDateOnly (ai_date item) = Some dt" "parseTimeToMinutes (startTime item) = Some s"
       "parseTimeToMinutes (endTime item) = Some e"
    by (auto simp: normalizeItem_def split: option.splits)
  have st': "pe_startMinutes c = clampStart s" and en': "pe_endMinutes c = clampEnd (clampStart s) e"
    using assms p by (auto simp: normalizeItem_def Let_def)
  have st: "pe_startMinutes c = max 0 (min 1410 s)"
    unfolding st' clampStart_def by simp
  have en: "pe_endMinutes c = max (pe_startMinutes c + 30)
              (min 1440 (if e > pe_startMinutes c then e else pe_startMinutes c + 60))"
    unfolding en' st' clampEnd_def by simp
  note rs = parseTimeToMinutes_range[OF p(2)]
  note re = parseTimeToMinutes_range[OF p(3)]
  have b1: "0 \<le> pe_startMinutes c \<and> pe_startMinutes c \<le> 1410"
    using st by (rule clamp_start)
  have b2: "pe_endMinutes c \<le> 1440 \<and> 30 \<le> pe_endMinutes c - pe_startMinutes c"
    using b1 en by (intro clamp_end) simp_all
  have b3: "s < e \<Longrightarrow> e < s + 30 \<Longrightarrow> pe_endMinutes c = pe_startMinutes c + 30"
    using rs re by (intro clamp_short[OF st en]) simp_all
  from b1 b2 b3 p show ?thesis by simp
qed

section \<open>Scenarios\<close>

lemma scenario_overlap_result:
  "snd (applyPlannedEvents noGeocode palette2 idOf itemsABC (snapshotOf (jan 2) [(0, [oldBlock 0])])
          (emptyApp (jan 2) [(0, [oldBlock 0])]))
   = \<lparr>created = 1, unresolvedPlaces = [], skippedInvalid = 0, skippedOverlap = 2\<rparr>"
  by code_simp

lemma scenario_overlap_events:
  "st_events (fst (applyPlannedEvents noGeocode palette2 idOf itemsABC (snapshotOf (jan 2) [(0, [oldBlock 0])])
          (emptyApp (jan 2) [(0, [oldBlock 0])])))
   = [(0, [oldBlock 0, aiBlock ''A'' 0 540 600])]"
  by code_simp

lemma scenario_overlap_candidates:
  "map pe_title (planCandidates (snapshotOf (jan 2) [(0, [oldBlock 0])]) itemsABC) = [''C'', ''A'', ''B'']"
  by code_simp

lemma scenario_overlap_shifted:
  "shiftedDay (planOffset (planCandidates (snapshotOf (jan 2) [(0, [oldBlock 0])]) itemsABC))
     (snapshotOf (jan 2) [(0, [oldBlock 0])]) 0 = [oldBlock 0]"
  by code_simp

lemma scenario_overlap_accepted:
  "acceptedBlocks noGeocode palette2 idOf
     (planOffset (planCandidates (snapshotOf (jan 2) [(0, [oldBlock 0])]) itemsABC))
     (planStart (planOffset (planCandidates (snapshotOf (jan 2) [(0, [oldBlock 0])]) itemsABC))
        (snapshotOf (jan 2) [(0, [oldBlock 0])]))
     (planCandidates (snapshotOf (jan 2) [(0, [oldBlock 0])]) itemsABC)
   = [aiBlock ''A'' 0 540 600]"
  by code_simp

lemma scenario_shift_result:
  "created (snd (applyPlannedEvents noGeocode palette2 idOf itemsEarly (snapshotOf (jan 10) [(2, [oldBlock 2])])
          (emptyApp (jan 10) [(2, [oldBlock 2])]))) = 1"
  by code_simp

lemma scenario_shift_offset:
  "planOffset (planCandidates (snapshotOf (jan 10) [(2, [oldBlock 2])]) itemsEarly) = 3"
  by code_simp

lemma scenario_shift_events:
  "st_events (fst (applyPlannedEvents noGeocode palette2 idOf itemsEarly (snapshotOf (jan 10) [(2, [oldBlock 2])])
          (emptyApp (jan 10) [(2, [oldBlock 2])])))
   = [(0, [\<lparr>id' = ''ai-'', dayIndex = 0, startMinutes = 540, endMinutes = 600,
            color = Some ''#111111'', title = ''New'', description = [], location = None,
            destination = None, routeMode = Some ''simple'', preciseRouteCache = None\<rparr>]),
      (5, [oldBlock 5])]"
  by code_simp

lemma scenario_shift_start:
  "st_startDate (fst (applyPlannedEvents noGeocode palette2 idOf itemsEarly (snapshotOf (jan 10) [(2, [oldBlock 2])])
          (emptyApp (jan 10) [(2, [oldBlock 2])]))) = jan 7"
  by code_simp

theorem insertion_overlap_law_witness:
  "obj_wf (snap_events (snapshotOf (jan 2) [(0, [oldBlock 0])])) \<and>
   set (bucketOf (nextEvents (runPlacement noGeocode palette2 idOf itemsABC
          (snapshotOf (jan 2) [(0, [oldBlock 0])]))) 0)
     = {oldBlock 0, aiBlock ''A'' 0 540 600} \<and>
   onlyOldOverlap [oldBlock 0]
     (bucketOf (nextEvents (runPlacement noGeocode palette2 idOf itemsABC
          (snapshotOf (jan 2) [(0, [oldBlock 0])]))) 0) \<and>
   st_events (fst (applyPlannedEvents noGeocode palette2 idOf itemsABC
      (snapshotOf (jan 2) [(0, [oldBlock 0])]) (emptyApp (jan 2) [(0, [oldBlock 0])])))
     = nextEvents (runPlacement noGeocode palette2 idOf itemsABC (snapshotOf (jan 2) [(0, [oldBlock 0])])) \<and>
   snd (applyPlannedEvents noGeocode palette2 idOf itemsABC
      (snapshotOf (jan 2) [(0, [oldBlock 0])]) (emptyApp (jan 2) [(0, [oldBlock 0])]))
     = \<lparr>created = 1, unresolvedPlaces = [], skippedInvalid = 0, skippedOverlap = 2\<rparr>"
proof -
  have h: "obj_wf (snap_events (snapshotOf (jan 2) [(0, [oldBlock 0])]))"
    by (simp add: obj_wf_def snapshotOf_def)
  note t = insertion_overlap_law[OF h, where geocode = noGeocode and palette = palette2
      and generateId = idOf and plannedEvents = itemsABC
      and st = "emptyApp (jan 2) [(0, [oldBlock 0])]", unfolded Let_def]
  note b = t[THEN conjunct2, THEN conjunct1, THEN spec[of _ 0],
      unfolded scenario_overlap_shifted scenario_overlap_accepted]
  note c = t[THEN conjunct2, THEN conjunct2, THEN conjunct1, THEN spec[of _ 0],
      unfolded scenario_overlap_shifted]
  note e = t[THEN conjunct2, THEN conjunct2, THEN conjunct2, THEN conjunct2, THEN conjunct1,
      unfolded scenario_overlap_result]
  have b': "set (bucketOf (nextEvents (runPlacement noGeocode palette2 idOf itemsABC
          (snapshotOf (jan 2) [(0, [oldBlock 0])]))) 0)
     = {oldBlock 0, aiBlock ''A'' 0 540 600}"
    using b by (simp add: aiBlock_def)
  have e': "st_events (fst (applyPlannedEvents noGeocode palette2 idOf itemsABC
      (snapshotOf (jan 2) [(0, [oldBlock 0])]) (emptyApp (jan 2) [(0, [oldBlock 0])])))
     = nextEvents (runPlacement noGeocode palette2 idOf itemsABC (snapshotOf (jan 2) [(0, [oldBlock 0])]))"
    using e by simp
  from h b' c e' scenario_overlap_result show ?thesis by (intro conjI)
qed

text \<open>
  The claim as stated fails on a document that already holds an overlapping pair, which
  manual editing can produce: the batch is committed (its candidate at 14:00 overlaps
  nothing) and the two old events, 08:00 to 08:50 and 08:20 to 09:20, are still in the
  bucket of day 0.
\<close>

theorem overlap_law_counterexample:
  "obj_wf (snap_events (snapshotOf (jan 2) oldPair)) \<and>
   snd (applyPlannedEvents noGeocode palette2 idOf itemsAfternoon (snapshotOf (jan 2) oldPair)
          (emptyApp (jan 2) oldPair))
     = \<lparr>created = 1, unresolvedPlaces = [], skippedInvalid = 0, skippedOverlap = 0\<rparr> \<and>
   st_events (fst (applyPlannedEvents noGeocode palette2 idOf itemsAfternoon (snapshotOf (jan 2) oldPair)
          (emptyApp (jan 2) oldPair)))
     = [(0, [oldBlock 0, block ''old2'' 0 500 560 ''Old2'', aiBlock ''A'' 0 840 900])] \<and>
   hasTimeOverlap (startMinutes (oldBlock 0)) (endMinutes (oldBlock 0))
     (startMinutes (block ''old2'' 0 500 560 ''Old2'')) (endMinutes (block ''old2'' 0 500 560 ''Old2'')) \<and>
   \<not> overlapFree (st_events (fst (applyPlannedEvents noGeocode palette2 idOf itemsAfternoon
          (snapshotOf (jan 2) oldPair) (emptyApp (jan 2) oldPair))))"
  by code_simp

theorem day_shift_witness:
  "planOffset (planCandidates (snapshotOf (jan 10) [(2, [oldBlock 2])]) itemsEarly) = 3 \<and>
   st_startDate (fst (applyPlannedEvents noGeocode palette2 idOf itemsEarly
      (snapshotOf (jan 10) [(2, [oldBlock 2])]) (emptyApp (jan 10) [(2, [oldBlock 2])]))) = jan 7 \<and>
   dayNumber (st_startDate (fst (applyPlannedEvents noGeocode palette2 idOf itemsEarly
      (snapshotOf (jan 10) [(2, [oldBlock 2])]) (emptyApp (jan 10) [(2, [oldBlock 2])]))))
     = dayNumber (jan 10) - 3 \<and>
   (oldBlock 2)\<lparr>dayIndex := 5\<rparr> \<in> set (bucketOf (st_events (fst (applyPlannedEvents noGeocode palette2 idOf
      itemsEarly (snapshotOf (jan 10) [(2, [oldBlock 2])]) (emptyApp (jan 10) [(2, [oldBlock 2])])))) 5) \<and>
   map dayIndex (bucketOf (st_events (fst (applyPlannedEvents noGeocode palette2 idOf
      itemsEarly (snapshotOf (jan 10) [(2, [oldBlock 2])]) (emptyApp (jan 10) [(2, [oldBlock 2])])))) 0) = [0]"
proof -
  have h1: "obj_wf (snap_events (snapshotOf (jan 10) [(2, [oldBlock 2])]))"
    by (simp add: obj_wf_def snapshotOf_def)
  have h2: "0 \<le> getMonth (startDateIso (snapshotOf (jan 10) [(2, [oldBlock 2])]))"
    and h3: "getMonth (startDateIso (snapshotOf (jan 10) [(2, [oldBlock 2])])) \<le> 11"
    by (simp_all add: snapshotOf_def jan_def)
  have h4: "0 < created (snd (applyPlannedEvents noGeocode palette2 idOf itemsEarly
      (snapshotOf (jan 10) [(2, [oldBlock 2])]) (emptyApp (jan 10) [(2, [oldBlock 2])])))"
    by (simp add: scenario_shift_result)
  note t = day_shift[OF h1 h2 h3 h4, unfolded Let_def scenario_shift_offset]
  have s: "startDateIso (snapshotOf (jan 10) [(2, [oldBlock 2])]) = jan 10"
    "snap_events (snapshotOf (jan 10) [(2, [oldBlock 2])]) = [(2, [oldBlock 2])]"
    by (simp_all add: snapshotOf_def)
  have z: "map dayIndex (bucketOf (st_events (fst (applyPlannedEvents noGeocode palette2 idOf
      itemsEarly (snapshotOf (jan 10) [(2, [oldBlock 2])]) (emptyApp (jan 10) [(2, [oldBlock 2])])))) 0) = [0]"
    by (simp add: scenario_shift_events bucketOf_def obj_get_def)
  note t2 = t[THEN conjunct2, THEN conjunct2, THEN conjunct1, unfolded s]
  from t[THEN conjunct2, THEN conjunct2, THEN conjunct2, THEN conjunct1, unfolded s]
  have t3: "(oldBlock 2)\<lparr>dayIndex := 5\<rparr> \<in> set (bucketOf (st_events (fst (applyPlannedEvents noGeocode palette2 idOf
      itemsEarly (snapshotOf (jan 10) [(2, [oldBlock 2])]) (emptyApp (jan 10) [(2, [oldBlock 2])])))) 5)"
    by simp
  from scenario_shift_offset scenario_shift_start t2 t3 z show ?thesis
    by (intro conjI)
qed

theorem rollback_exact_witness:
  "st_events (handleAiRollback (captureRollback ''cal-1'' (makeSnapshot (emptyApp (jan 10) [(2, [oldBlock 2])]))
      (emptyApp (jan 7) [(0, [oldBlock 0]), (5, [oldBlock 5])]))) = [(2, [oldBlock 2])] \<and>
   st_startDate (handleAiRollback (captureRollback ''cal-1'' (makeSnapshot (emptyApp (jan 10) [(2, [oldBlock 2])]))
      (emptyApp (jan 7) [(0, [oldBlock 0]), (5, [oldBlock 5])]))) = jan 10 \<and>
   aiRollbackByCalendar (handleAiRollback (captureRollback ''cal-1''
      (makeSnapshot (emptyApp (jan 10) [(2, [oldBlock 2])]))
      (emptyApp (jan 7) [(0, [oldBlock 0]), (5, [oldBlock 5])]))) ''cal-1'' = Some None"
  using rollback_exact[of "emptyApp (jan 7) [(0, [oldBlock 0]), (5, [oldBlock 5])]" "''cal-1''"
      "emptyApp (jan 10) [(2, [oldBlock 2])]"]
  by (simp add: emptyApp_def obj_wf_def)

text \<open>
  C8 (stale result). The request starts on calendar cal-1 and the planner answers with a
  ready batch of one event with an origin to geocode; the staleness test passes, cal-1
  being active when the response arrives. While the geocoder is awaited the user switches
  to cal-2, whose document is loaded. The handler then completes with cal-2 active: the
  events and the start date of the application state are the batch computed from cal-1's
  snapshot, not the document of cal-2, and the snapshot is stored in cal-1's slot of the
  ledger (cal-2's slot stays empty). The planned events are applied although the active
  calendar at completion differs from the one the request started on.
\<close>

theorem stale_result_applied:
  "snd (handleAiMessage_response ''cal-1'' (readyPayload itemsParis) (emptyApp (jan 2) []))
     = Some ''Planned.'' \<and>
   st_events (switchToCal2 (emptyApp (jan 2) [])) = [(0, [oldBlock 0])] \<and>
   st_startDate (switchToCal2 (emptyApp (jan 2) [])) = jan 20 \<and>
   currentCalendarId (handleAiMessage_complete noGeocode palette2 idOf showUnary ''cal-1''
      (makeSnapshot (emptyApp (jan 2) [])) (readyPayload itemsParis) switchToCal2 (emptyApp (jan 2) []))
     = Some ''cal-2'' \<and>
   currentCalendarIdRef (handleAiMessage_complete noGeocode palette2 idOf showUnary ''cal-1''
      (makeSnapshot (emptyApp (jan 2) [])) (readyPayload itemsParis) switchToCal2 (emptyApp (jan 2) []))
     = Some ''cal-2'' \<and>
   st_events (handleAiMessage_complete noGeocode palette2 idOf showUnary ''cal-1''
      (makeSnapshot (emptyApp (jan 2) [])) (readyPayload itemsParis) switchToCal2 (emptyApp (jan 2) []))
     = [(0, [aiBlock ''A'' 0 540 600])] \<and>
   st_startDate (handleAiMessage_complete noGeocode palette2 idOf showUnary ''cal-1''
      (makeSnapshot (emptyApp (jan 2) [])) (readyPayload itemsParis) switchToCal2 (emptyApp (jan 2) []))
     = jan 2 \<and>
   aiRollbackByCalendar (handleAiMessage_complete noGeocode palette2 idOf showUnary ''cal-1''
      (makeSnapshot (emptyApp (jan 2) [])) (readyPayload itemsParis) switchToCal2 (emptyApp (jan 2) []))
      ''cal-1'' = Some (Some (makeSnapshot (emptyApp (jan 2) []))) \<and>
   aiRollbackByCalendar (handleAiMessage_complete noGeocode palette2 idOf showUnary ''cal-1''
      (makeSnapshot (emptyApp (jan 2) [])) (readyPayload itemsParis) switchToCal2 (emptyApp (jan 2) []))
      ''cal-2'' = None"
  by code_simp

text \<open>
  C9 (invalid items). The item dated 0050-06-15 from 09:00 to 10:00 is valid as the
  claim words it, a real calendar date in the four, two, two digit form with both times
  in range, and the normalizer drops it and counts it as invalid:
  \<open>new Date(50, 5, 15)\<close> is a date of 1950, so the round trip in
  \<open>parseIsoDateOnly\<close> finds another year and returns null.
\<close>

theorem normalizer_drops_real_date:
  "validPlanItem itemYear50 \<and> normalizeItem (jan 1) itemYear50 = None \<and>
   parsePlanned (jan 1) [itemYear50] = ([], 1)"
  by code_simp

lemma itemFeb30_dropped:
  "\<not> validPlanItem itemFeb30 \<and> normalizeItem (jan 1) itemFeb30 = None"
  by code_simp

lemma itemShort_normalized:
  "normalizeItem (jan 1) itemShort =
     Some \<lparr>pe_title = ''S'', pe_description = [], pe_date = jan 2, dayDiff = 1,
           pe_startMinutes = 540, pe_endMinutes = 570, pe_origin = None, pe_destination = None,
           pe_color = None\<rparr>"
  by code_simp

theorem normalized_bounds_witness:
  "map_option pe_startMinutes (normalizeItem (jan 1) itemShort) = Some 540 \<and>
   map_option pe_endMinutes (normalizeItem (jan 1) itemShort) = Some 570 \<and>
   parseTimeToMinutes (startTime itemShort) = Some 540 \<and>
   parseTimeToMinutes (endTime itemShort) = Some 550"
proof -
  have p: "parseTimeToMinutes (startTime itemShort) = Some 540"
    "parseTimeToMinutes (endTime itemShort) = Some 550"
    by code_simp+
  from normalized_bounds[OF itemShort_normalized] p itemShort_normalized
  show ?thesis by simp
qed

end
